theory Spec2Isabelle
  imports Main "HOL-Library.AList" "HOL-Library.Multiset"
begin

section \<open>Python values and exceptions\<close>

text \<open>
  The values that travel through a filter: \<open>None\<close>, booleans, integers, strings and
  model instances.  A model instance \<open>PObj k d\<close> carries its primary key \<open>k\<close> and the rest
  of its row \<open>d\<close>.
\<close>

datatype pyval = PNone | PBool bool | PInt int | PStr string | PObj pyval string

text \<open>Python truthiness (\<open>if value\<close>): a model instance defines neither \<open>__bool__\<close> nor
  \<open>__len__\<close> and is always true.\<close>

fun truthy :: "pyval \<Rightarrow> bool" where
  "truthy PNone = False"
| "truthy (PBool b) = b"
| "truthy (PInt i) = (i \<noteq> 0)"
| "truthy (PStr s) = (s \<noteq> [])"
| "truthy (PObj k d) = True"

text \<open>The exceptions that can leave the module.  \<open>AttributeError\<close> and \<open>KeyError\<close> carry the
  attribute or key that was missing, \<open>ValueError\<close> and \<open>TypeError\<close> their message.\<close>

datatype error =
    ValueError string
  | TypeError string
  | AttributeError string
  | KeyError string
  | DoesNotExist
  | MultipleObjectsReturned

text \<open>\<open>value.pk\<close>: only a model instance has the attribute.\<close>

fun pk :: "pyval \<Rightarrow> error + pyval" where
  "pk (PObj k d) = Inr k"
| "pk v = Inl (AttributeError ''pk'')"

text \<open>
  \<open>queryset.get(pk=value)\<close> of the Django ORM, on the rows the queryset currently selects:
  the single row with that primary key, \<open>DoesNotExist\<close> when there is none,
  \<open>MultipleObjectsReturned\<close> when there are several.  The key is compared as it is, where
  Django first converts it to the type of the key column: the definition is exact for
  keys of that type, which are the keys \<open>store\<close> produces.
\<close>

definition qs_get :: "pyval list \<Rightarrow> pyval \<Rightarrow> error + pyval" where
  "qs_get rows k =
     (case filter (\<lambda>r. pk r = Inr k) rows of
        [] \<Rightarrow> Inl DoesNotExist
      | [r] \<Rightarrow> Inr r
      | r # r' # rs \<Rightarrow> Inl MultipleObjectsReturned)"

text \<open>Two keys of one kind, as the keys of one key column are.\<close>

fun same_kind :: "pyval \<Rightarrow> pyval \<Rightarrow> bool" where
  "same_kind PNone PNone = True"
| "same_kind (PBool a) (PBool b) = True"
| "same_kind (PInt a) (PInt b) = True"
| "same_kind (PStr a) (PStr b) = True"
| "same_kind (PObj a c) (PObj b d) = True"
| "same_kind a b = False"

section \<open>Field options and field types\<close>

text \<open>
  What \<open>Meta.field\<close> can hold: \<open>None\<close>, an instance of \<open>django.forms.Field\<close> (given by
  its address in the store of form fields), or any other object, described by what the
  module observes of it: its truthiness and its \<open>__name__\<close> attribute when it has one.
\<close>

datatype pyobj = NoneObj | FormFieldObj nat | OtherObj bool "string option"

fun pyobj_truthy :: "pyobj \<Rightarrow> bool" where
  "pyobj_truthy NoneObj = False"
| "pyobj_truthy (FormFieldObj r) = True"
| "pyobj_truthy (OtherObj b n) = b"

text \<open>A string attribute that may be \<open>None\<close>: false when \<open>None\<close> or empty.\<close>

fun str_truthy :: "string option \<Rightarrow> bool" where
  "str_truthy None = False"
| "str_truthy (Some s) = (s \<noteq> [])"

text \<open>\<open>bool(queryset)\<close> evaluates the queryset: true when it selects a row.\<close>

fun queryset_truthy :: "pyval list option \<Rightarrow> bool" where
  "queryset_truthy None = False"
| "queryset_truthy (Some rows) = (rows \<noteq> [])"

text \<open>The attributes of the inner class \<open>Meta\<close> of a field type; an attribute that is not
  declared is \<open>None\<close> here (\<open>NoneObj\<close> for \<open>field\<close>).\<close>

record meta_attrs =
  m_field :: pyobj
  m_operator :: "string option"
  m_force_empty :: "bool option"
  m_name :: "string option"
  m_queryset :: "pyval list option"

text \<open>\<open>FieldOptions\<close> and \<open>ModelFieldOptions\<close>.  Only a \<open>ModelFieldOptions\<close> has a
  \<open>queryset\<close>; on a \<open>FieldOptions\<close> the component is \<open>None\<close> and never read.\<close>

record field_options =
  field :: pyobj
  operator :: "string option"
  force_empty :: bool
  name :: "string option"
  queryset :: "pyval list option"

definition FieldOptions_init :: "meta_attrs option \<Rightarrow> field_options" where
  "FieldOptions_init options =
     (case options of
        None \<Rightarrow> \<lparr>field = NoneObj, operator = None, force_empty = False, name = None,
                 queryset = None\<rparr>
      | Some m \<Rightarrow> \<lparr>field = m_field m, operator = m_operator m,
                   force_empty = (case m_force_empty m of None \<Rightarrow> False | Some b \<Rightarrow> b),
                   name = m_name m, queryset = None\<rparr>)"

definition ModelFieldOptions_init :: "meta_attrs option \<Rightarrow> field_options" where
  "ModelFieldOptions_init options =
     (FieldOptions_init options)
       \<lparr>queryset := (case options of None \<Rightarrow> None | Some m \<Rightarrow> m_queryset m)\<rparr>"

text \<open>\<open>check_field_options(new_class, opts)\<close>, with the class given by its \<open>__name__\<close>.  The
  arguments of \<open>format\<close> are evaluated before the \<open>TypeError\<close> is built, so
  \<open>opts.field.__name__\<close> raises first on an object without that attribute.\<close>

definition check_field_options :: "string \<Rightarrow> field_options \<Rightarrow> error + unit" where
  "check_field_options cls opts =
     (if \<not> pyobj_truthy (field opts)
      then Inl (ValueError (cls @ ''.Meta.field have to be specified.''))
      else (case field opts of
              FormFieldObj r \<Rightarrow> Inr ()
            | NoneObj \<Rightarrow> Inl (AttributeError ''__name__'')
            | OtherObj b None \<Rightarrow> Inl (AttributeError ''__name__'')
            | OtherObj b (Some n) \<Rightarrow>
                Inl (TypeError (cls @ ''.Meta.field have to a valid Django Field, cannot be a {type}''))))"

text \<open>\<open>FieldMetaClass.__new__\<close>: the class name, whether \<open>bases == (BaseField,)\<close>, and the
  class's \<open>Meta\<close> if it has one.  The result is the \<open>_meta\<close> of the new class, \<open>None\<close> for
  the marker class, which gets none.\<close>

definition FieldMetaClass_new ::
  "string \<Rightarrow> bool \<Rightarrow> meta_attrs option \<Rightarrow> error + field_options option" where
  "FieldMetaClass_new cls bases_is_base meta =
     (if bases_is_base then Inr None
      else (let opts = FieldOptions_init meta in
            case check_field_options cls opts of
              Inl e \<Rightarrow> Inl e
            | Inr u \<Rightarrow> Inr (Some opts)))"

text \<open>\<open>ModelFieldMetaClass.__new__\<close>: the parent's \<open>__new__\<close> runs first, then the options
  are rebuilt as \<open>ModelFieldOptions\<close> and checked again.\<close>

definition ModelFieldMetaClass_new ::
  "string \<Rightarrow> bool \<Rightarrow> meta_attrs option \<Rightarrow> error + field_options option" where
  "ModelFieldMetaClass_new cls bases_is_base meta =
     (case FieldMetaClass_new cls bases_is_base meta of
        Inl e \<Rightarrow> Inl e
      | Inr new_class \<Rightarrow>
          if bases_is_base then Inr None
          else (let opts = ModelFieldOptions_init meta in
                case check_field_options cls opts of
                  Inl e \<Rightarrow> Inl e
                | Inr u \<Rightarrow>
                    if \<not> queryset_truthy (queryset opts)
                    then Inl (ValueError ''Queryset has to be specified.'')
                    else Inr (Some opts)))"

text \<open>What an exception says: the message of a \<open>ValueError\<close> or \<open>TypeError\<close>, the missing
  attribute or key otherwise.  An error names a class when its text starts with the
  class name.\<close>

fun error_text :: "error \<Rightarrow> string" where
  "error_text (ValueError m) = m"
| "error_text (TypeError m) = m"
| "error_text (AttributeError a) = a"
| "error_text (KeyError k) = k"
| "error_text DoesNotExist = []"
| "error_text MultipleObjectsReturned = []"

definition names_class :: "string \<Rightarrow> error \<Rightarrow> bool" where
  "names_class cls e = (take (length cls) (error_text e) = cls)"

section \<open>Fields: storing and unstoring\<close>

text \<open>A field instance is of a type derived from \<open>Field\<close> or from \<open>ModelField\<close>; its
  \<open>_meta\<close> is an object of its own, given by its address.\<close>

datatype field_kind = PlainField | ModelFieldKind

record field_inst =
  kind :: field_kind
  meta_ref :: nat

text \<open>\<open>BaseField.store\<close> and \<open>ModelField.store\<close>.\<close>

fun store :: "field_kind \<Rightarrow> pyval \<Rightarrow> error + pyval" where
  "store PlainField v = Inr v"
| "store ModelFieldKind v = (if truthy v then pk v else Inr PNone)"

text \<open>\<open>BaseField.unstore\<close> and \<open>ModelField.unstore\<close>; the first argument is the field's
  \<open>_meta\<close>, when it has one.  The conditional expression tests \<open>value\<close> first and reads
  \<open>self._meta.queryset\<close> only when it is true.\<close>

fun unstore :: "field_options option \<Rightarrow> field_kind \<Rightarrow> pyval \<Rightarrow> error + pyval" where
  "unstore mo PlainField v = Inr v"
| "unstore mo ModelFieldKind v =
     (if truthy v
      then (case mo of
              None \<Rightarrow> Inl (AttributeError ''_meta'')
            | Some opts \<Rightarrow>
                (case queryset opts of
                   None \<Rightarrow> Inl (AttributeError ''get'')
                 | Some rows \<Rightarrow> qs_get rows v))
      else Inr PNone)"

text \<open>\<open>BaseField.render_value\<close>.\<close>

definition render_value :: "pyval \<Rightarrow> pyval" where
  "render_value v = v"

text \<open>\<open>BaseField.render_operator\<close>.  \<open>format\<close> prints a name that is \<open>None\<close> as
  \<open>None\<close>.  The key is \<open>PNone\<close> when the name is \<open>None\<close> and no operator is set.\<close>

definition py_str :: "string option \<Rightarrow> string" where
  "py_str s = (case s of None \<Rightarrow> ''None'' | Some t \<Rightarrow> t)"

definition render_operator :: "field_options \<Rightarrow> pyval" where
  "render_operator opts =
     (if \<not> str_truthy (operator opts)
      then (case name opts of None \<Rightarrow> PNone | Some n \<Rightarrow> PStr n)
      else PStr (py_str (name opts) @ ''__'' @ py_str (operator opts)))"

section \<open>Filter types\<close>

text \<open>
  A form field, as far as the module reads and writes it.  Django numbers form fields in
  the order of their construction (\<open>creation_counter\<close>).
\<close>

record form_field =
  creation_counter :: nat
  initial :: pyval
  required :: bool

text \<open>
  Field instances of one field type share the \<open>_meta\<close> of their class, and field types can
  share one form field, so both kinds of object live in a store and are reached by
  address.
\<close>

record heap =
  metas :: "nat \<rightharpoonup> field_options"
  forms :: "nat \<rightharpoonup> form_field"

text \<open>An attribute of the class body: a field instance, or anything else.\<close>

datatype attr = FieldAttr field_inst | OtherAttr

text \<open>What \<open>Meta.model\<close> can hold: \<open>None\<close>, a model class (an instance of \<open>ModelBase\<close>, with
  its \<open>__name__\<close>), or another object with its truthiness and its \<open>__name__\<close> if any.\<close>

datatype modelobj = NoModel | ModelClass string | OtherModel bool "string option"

fun model_truthy :: "modelobj \<Rightarrow> bool" where
  "model_truthy NoModel = False"
| "model_truthy (ModelClass n) = True"
| "model_truthy (OtherModel b n) = b"

record filter_class =
  fc_name :: string
  base_fields :: "(string \<times> field_inst) list"
  fc_model :: modelobj

text \<open>
  The first loop of \<open>DynamicFilterMetaClass.__new__\<close>, over \<open>attrs.items()\<close> in iteration
  order: a field without a name gets the attribute's name written into its \<open>_meta\<close>
  (\<open>default_name\<close>), is appended to \<open>current_fields\<close> and popped from \<open>attrs\<close>.  The result is \<open>current_fields\<close>
  and what is left of \<open>attrs\<close>; the store is returned as the loop left it, also when an
  exception ends the loop.
\<close>

definition default_name :: "heap \<Rightarrow> field_inst \<Rightarrow> field_options \<Rightarrow> string \<Rightarrow> heap" where
  "default_name h f opts key =
     (if \<not> str_truthy (name opts)
      then h\<lparr>metas := (metas h)(meta_ref f \<mapsto> opts\<lparr>name := Some key\<rparr>)\<rparr>
      else h)"

fun collect_fields ::
  "heap \<Rightarrow> (string \<times> attr) list \<Rightarrow>
     (error + (string \<times> field_inst) list \<times> (string \<times> attr) list) \<times> heap" where
  "collect_fields h [] = (Inr ([], []), h)"
| "collect_fields h ((key, OtherAttr) # attrs) =
     (case collect_fields h attrs of
        (Inl e, h') \<Rightarrow> (Inl e, h')
      | (Inr (cf, rest), h') \<Rightarrow> (Inr (cf, (key, OtherAttr) # rest), h'))"
| "collect_fields h ((key, FieldAttr f) # attrs) =
     (case metas h (meta_ref f) of
        None \<Rightarrow> (Inl (AttributeError ''_meta''), h)
      | Some opts \<Rightarrow>
          (case collect_fields (default_name h f opts key) attrs of
             (Inl e, h') \<Rightarrow> (Inl e, h')
           | (Inr (cf, rest), h') \<Rightarrow> (Inr ((key, f) # cf, rest), h')))"

text \<open>The sort key \<open>x[1]._meta.field.creation_counter\<close>.\<close>

definition creation_counter_of :: "heap \<Rightarrow> field_inst \<Rightarrow> error + nat" where
  "creation_counter_of h f =
     (case metas h (meta_ref f) of
        None \<Rightarrow> Inl (AttributeError ''_meta'')
      | Some opts \<Rightarrow>
          (case field opts of
             FormFieldObj r \<Rightarrow>
               (case forms h r of
                  None \<Rightarrow> Inl (AttributeError ''creation_counter'')
                | Some ff \<Rightarrow> Inr (creation_counter ff))
           | NoneObj \<Rightarrow> Inl (AttributeError ''creation_counter'')
           | OtherObj b n \<Rightarrow> Inl (AttributeError ''creation_counter'')))"

text \<open>\<open>list.sort(key=...)\<close> computes the key of every element, in order, before it sorts;
  the first key that cannot be computed raises.\<close>

fun sort_keys ::
  "heap \<Rightarrow> (string \<times> field_inst) list \<Rightarrow> error + (nat \<times> string \<times> field_inst) list" where
  "sort_keys h [] = Inr []"
| "sort_keys h ((key, f) # xs) =
     (case creation_counter_of h f of
        Inl e \<Rightarrow> Inl e
      | Inr c \<Rightarrow>
          (case sort_keys h xs of
             Inl e \<Rightarrow> Inl e
           | Inr ys \<Rightarrow> Inr ((c, key, f) # ys)))"

text \<open>\<open>OrderedDict(pairs)\<close>: a key seen again keeps its place and takes the new value.\<close>

definition OrderedDict :: "('k \<times> 'v) list \<Rightarrow> ('k \<times> 'v) list" where
  "OrderedDict xs = fold (\<lambda>(k, v). AList.update k v) xs []"

text \<open>
  \<open>DynamicFilterMetaClass.__new__(mcs, name, bases, attrs)\<close>: the class name, whether
  \<open>bases == (BaseDynamicFilter,)\<close>, the class body and \<open>Meta.model\<close>.  The sort is Python's
  stable sort, on the keys alone.  The marker class gets neither \<open>_meta\<close> nor \<open>name\<close>
  (result \<open>None\<close>).
\<close>

definition DynamicFilterMetaClass_new ::
  "heap \<Rightarrow> string \<Rightarrow> bool \<Rightarrow> (string \<times> attr) list \<Rightarrow> modelobj \<Rightarrow>
     (error + filter_class option) \<times> heap" where
  "DynamicFilterMetaClass_new h cls bases_is_base attrs mdl =
     (case collect_fields h attrs of
        (Inl e, h') \<Rightarrow> (Inl e, h')
      | (Inr (cf, rest), h') \<Rightarrow>
          (case sort_keys h' cf of
             Inl e \<Rightarrow> (Inl e, h')
           | Inr keyed \<Rightarrow>
               (let current_fields = OrderedDict (map snd (sort_key fst keyed)) in
                if bases_is_base then (Inr None, h')
                else if \<not> model_truthy mdl
                then (Inl (ValueError (cls @ ''.Meta.model cannot be a null.'')), h')
                else (case mdl of
                        ModelClass n \<Rightarrow>
                          (Inr (Some \<lparr>fc_name = cls, base_fields = current_fields,
                                      fc_model = mdl\<rparr>), h')
                      | NoModel \<Rightarrow> (Inl (AttributeError ''__name__''), h')
                      | OtherModel b None \<Rightarrow> (Inl (AttributeError ''__name__''), h')
                      | OtherModel b (Some n) \<Rightarrow>
                          (Inl (TypeError (cls @
                             ''.Meta.model have to be a valid Django Model, cannot be a '' @ n)),
                           h')))))"

text \<open>The fields a class body declares, in the body's iteration order.\<close>

fun declared_fields :: "(string \<times> attr) list \<Rightarrow> (string \<times> field_inst) list" where
  "declared_fields [] = []"
| "declared_fields ((key, OtherAttr) # attrs) = declared_fields attrs"
| "declared_fields ((key, FieldAttr f) # attrs) = (key, f) # declared_fields attrs"

text \<open>The creation counter of a declared field as a number, for stating orders (\<open>0\<close>
  where the counter cannot be read).\<close>

definition counter_key :: "heap \<Rightarrow> string \<times> field_inst \<Rightarrow> nat" where
  "counter_key h x = (case creation_counter_of h (snd x) of Inl e \<Rightarrow> 0 | Inr c \<Rightarrow> c)"

text \<open>What the collection loop may do to a \<open>_meta\<close>: nothing but set its name, and only
  when the name was not set.\<close>

definition meta_kept :: "field_options option \<Rightarrow> field_options option \<Rightarrow> bool" where
  "meta_kept a b =
     (case a of
        None \<Rightarrow> b = None
      | Some x \<Rightarrow>
          (\<exists>n. b = Some (x\<lparr>name := n\<rparr>) \<and> (str_truthy (name x) \<longrightarrow> n = name x)))"

section \<open>Filter instances\<close>

text \<open>
  The request, as far as \<open>BaseDynamicFilter.__init__\<close> touches it: the session (under a
  filter's name it holds that filter's \<open>values\<close>), the session's \<open>modified\<close> flag, the
  query string, the method and the submitted data.
\<close>

record request =
  session :: "string \<rightharpoonup> (string \<rightharpoonup> pyval)"
  modified :: bool
  GET :: "string \<rightharpoonup> string"
  http_method :: string
  POST :: "(string \<times> string) list"

text \<open>
  The form built at the end of \<open>__init__\<close>: its fields by name, and when it is bound the
  submitted data with the outcome of \<open>is_valid()\<close>: \<open>None\<close> when validation fails,
  the items of \<open>cleaned_data\<close> when it succeeds.  Validation is Django's; it is a parameter
  \<open>clean\<close> of the constructor, from the form fields and the submitted data.
\<close>

datatype form =
    UnboundForm "(string \<times> nat) list"
  | BoundForm "(string \<times> nat) list" "(string \<times> string) list" "(string \<times> pyval) list option"

type_synonym cleaner =
  "(string \<times> form_field) list \<Rightarrow> (string \<times> string) list \<Rightarrow> (string \<times> pyval) list option"

text \<open>
  A filter instance.  \<open>fields\<close> is the deep copy of \<open>base_fields\<close>; the copy keeps the
  sharing of the original (\<open>deepcopy\<close> goes through one memo), so the copied \<open>_meta\<close> and
  form-field objects are a private store \<open>own\<close> with the addresses of the original.
  \<open>fields\<close> is an \<open>OrderedDict\<close>: its keys are distinct.
\<close>

record filter_instance =
  filter_type :: filter_class
  first_init :: bool
  is_reset :: bool
  values' :: "string \<rightharpoonup> pyval"
  fields' :: "(string \<times> field_inst) list"
  own :: heap
  form :: form

text \<open>\<open>set_value\<close>: the right-hand side is evaluated first, so a missing field or a failing
  \<open>store\<close> leaves \<open>values\<close> as it was.\<close>

definition set_value ::
  "filter_instance \<Rightarrow> string \<Rightarrow> pyval \<Rightarrow> (error + unit) \<times> filter_instance" where
  "set_value self nm v =
     (case map_of (fields' self) nm of
        None \<Rightarrow> (Inl (KeyError nm), self)
      | Some f \<Rightarrow>
          (case store (kind f) v of
             Inl e \<Rightarrow> (Inl e, self)
           | Inr sv \<Rightarrow> (Inr (), self\<lparr>values' := (values' self)(nm \<mapsto> sv)\<rparr>)))"

text \<open>The body of the \<open>try\<close> in \<open>get_value\<close>:
  \<open>self.fields[name].unstore(self.values[name])\<close>.\<close>

definition unstore_value :: "filter_instance \<Rightarrow> string \<Rightarrow> error + pyval" where
  "unstore_value self nm =
     (case map_of (fields' self) nm of
        None \<Rightarrow> Inl (KeyError nm)
      | Some f \<Rightarrow>
          (case values' self nm of
             None \<Rightarrow> Inl (KeyError nm)
           | Some sv \<Rightarrow> unstore (metas (own self) (meta_ref f)) (kind f) sv))"

text \<open>\<open>get_value(name, default, init)\<close>: only a \<open>KeyError\<close> is caught.\<close>

definition get_value ::
  "filter_instance \<Rightarrow> string \<Rightarrow> pyval \<Rightarrow> bool \<Rightarrow> (error + pyval) \<times> filter_instance" where
  "get_value self nm dflt init =
     (case unstore_value self nm of
        Inr v \<Rightarrow> (Inr v, self)
      | Inl (KeyError k) \<Rightarrow>
          (if init
           then (case set_value self nm dflt of
                   (Inl e, self') \<Rightarrow> (Inl e, self')
                 | (Inr u, self') \<Rightarrow> (Inr dflt, self'))
           else (Inr dflt, self))
      | Inl e \<Rightarrow> (Inl e, self))"

text \<open>\<open>getattr(form_field, 'initial', None)\<close> for \<open>form_field = field._meta.field\<close>.\<close>

definition initial_of :: "heap \<Rightarrow> field_options \<Rightarrow> pyval" where
  "initial_of h opts =
     (case field opts of
        FormFieldObj r \<Rightarrow> (case forms h r of None \<Rightarrow> PNone | Some ff \<Rightarrow> initial ff)
      | NoneObj \<Rightarrow> PNone
      | OtherObj b n \<Rightarrow> PNone)"

text \<open>
  The loop over \<open>self.fields.items()\<close> in \<open>__init__\<close>: the field's current value is
  resolved with \<open>init=True\<close>, written to the copied form field as its \<open>initial\<close>, and the
  form field is made optional.  The result is \<open>form_fields\<close>.
\<close>

fun materialize ::
  "filter_instance \<Rightarrow> (string \<times> field_inst) list \<Rightarrow>
     (error + (string \<times> nat) list) \<times> filter_instance" where
  "materialize self [] = (Inr [], self)"
| "materialize self ((nm, f) # rest) =
     (case metas (own self) (meta_ref f) of
        None \<Rightarrow> (Inl (AttributeError ''_meta''), self)
      | Some opts \<Rightarrow>
          (case get_value self nm (initial_of (own self) opts) True of
             (Inl e, self1) \<Rightarrow> (Inl e, self1)
           | (Inr v, self1) \<Rightarrow>
               (case field opts of
                  NoneObj \<Rightarrow> (Inl (AttributeError ''initial''), self1)
                | OtherObj b n \<Rightarrow> (Inl (AttributeError ''initial''), self1)
                | FormFieldObj r \<Rightarrow>
                    (case forms (own self1) r of
                       None \<Rightarrow> (Inl (AttributeError ''initial''), self1)
                     | Some ff \<Rightarrow>
                         (case materialize
                                 (self1\<lparr>own := (own self1)\<lparr>forms := (forms (own self1))
                                    (r \<mapsto> ff\<lparr>initial := v, required := False\<rparr>)\<rparr>\<rparr>) rest of
                            (Inl e, self2) \<Rightarrow> (Inl e, self2)
                          | (Inr ffs, self2) \<Rightarrow> (Inr ((nm, r) # ffs), self2))))))"

text \<open>The loop over \<open>cleaned_data.items()\<close>.\<close>

fun set_values ::
  "filter_instance \<Rightarrow> (string \<times> pyval) list \<Rightarrow> (error + unit) \<times> filter_instance" where
  "set_values self [] = (Inr (), self)"
| "set_values self ((nm, v) # rest) =
     (case set_value self nm v of
        (Inl e, self1) \<Rightarrow> (Inl e, self1)
      | (Inr u, self1) \<Rightarrow> set_values self1 rest)"

text \<open>
  The first lines of \<open>__init__\<close>: \<open>first_init\<close>, \<open>is_reset\<close>, the starting \<open>values\<close> and the
  request after the session entry has been deleted on a reset.  \<open>session_get\<close> is
  \<open>session.get(name, {})\<close>.
\<close>

definition session_get :: "request \<Rightarrow> string \<Rightarrow> (string \<rightharpoonup> pyval)" where
  "session_get req nm = (case session req nm of None \<Rightarrow> Map.empty | Some vs \<Rightarrow> vs)"

definition resolve_state ::
  "string \<Rightarrow> request \<Rightarrow> bool \<times> bool \<times> (string \<rightharpoonup> pyval) \<times> request" where
  "resolve_state nm req =
     (let fi = (session req nm = None);
          ir = (GET req ''reset_filter'' = Some nm)
      in if fi \<or> ir
         then (fi, ir, Map.empty,
               if \<not> fi \<and> ir then req\<lparr>session := (session req)(nm := None)\<rparr> else req)
         else (fi, ir, session_get req nm, req))"

text \<open>\<open>copy.deepcopy(self._meta.base_fields)\<close> reads the \<open>_meta\<close> of every field.\<close>

definition deepcopy_fields ::
  "heap \<Rightarrow> (string \<times> field_inst) list \<Rightarrow> error + (string \<times> field_inst) list \<times> heap" where
  "deepcopy_fields h bf =
     (if list_all (\<lambda>(nm, f). metas h (meta_ref f) \<noteq> None) bf
      then Inr (bf, h)
      else Inl (AttributeError ''_meta''))"

text \<open>The form fields handed to the form, as they are when the form is built.\<close>

definition form_fields_of :: "heap \<Rightarrow> (string \<times> nat) list \<Rightarrow> (string \<times> form_field) list" where
  "form_fields_of h ffs =
     concat (map (\<lambda>(nm, r). case forms h r of None \<Rightarrow> [] | Some ff \<Rightarrow> [(nm, ff)]) ffs)"

text \<open>
  \<open>BaseDynamicFilter.__init__(self, request)\<close> for an instance of the filter type \<open>flt\<close>,
  with the store \<open>h\<close> of the declared \<open>_meta\<close> and form-field objects.  The result is the
  instance and the request as the constructor leaves it; an exception ends the
  construction.
\<close>

definition BaseDynamicFilter_init ::
  "cleaner \<Rightarrow> filter_class \<Rightarrow> heap \<Rightarrow> request \<Rightarrow> error + filter_instance \<times> request" where
  "BaseDynamicFilter_init clean flt h req =
     (case resolve_state (fc_name flt) req of
        (fi, ir, vs, req1) \<Rightarrow>
          (case deepcopy_fields h (base_fields flt) of
             Inl e \<Rightarrow> Inl e
           | Inr (fs, h') \<Rightarrow>
               (case materialize
                       \<lparr>filter_type = flt, first_init = fi, is_reset = ir, values' = vs, fields' = fs,
                        own = h', form = UnboundForm []\<rparr> fs of
                  (Inl e, self1) \<Rightarrow> Inl e
                | (Inr ffs, self1) \<Rightarrow>
                    (case (if http_method req1 = ''POST'' \<and> \<not> ir
                           then (let cleaned = clean (form_fields_of (own self1) ffs) (POST req1);
                                     self2 = self1\<lparr>form := BoundForm ffs (POST req1) cleaned\<rparr>
                                 in case cleaned of
                                      None \<Rightarrow> (Inr (), self2)
                                    | Some items \<Rightarrow> set_values self2 items)
                           else (Inr (), self1\<lparr>form := UnboundForm ffs\<rparr>)) of
                       (Inl e, self3) \<Rightarrow> Inl e
                     | (Inr u, self3) \<Rightarrow>
                         Inr (self3,
                              req1\<lparr>session := (session req1)(fc_name flt \<mapsto> values' self3),
                                   modified := True\<rparr>)))))"

text \<open>
  \<open>render_query_kwargs\<close>: the loop over \<open>self.fields.items()\<close>, with \<open>kwargs\<close> as the
  dictionary built so far (a key written again keeps its place and takes the new
  value).  Both the test of \<open>force_empty\<close> and \<open>render_operator\<close> read the field's
  \<open>_meta\<close>.
\<close>

fun render_kwargs_loop ::
  "filter_instance \<Rightarrow> (string \<times> field_inst) list \<Rightarrow> (pyval \<times> pyval) list \<Rightarrow>
     (error + (pyval \<times> pyval) list) \<times> filter_instance" where
  "render_kwargs_loop self [] kwargs = (Inr kwargs, self)"
| "render_kwargs_loop self ((nm, f) # rest) kwargs =
     (case get_value self nm PNone False of
        (Inl e, self1) \<Rightarrow> (Inl e, self1)
      | (Inr v, self1) \<Rightarrow>
          (case metas (own self1) (meta_ref f) of
             None \<Rightarrow> (Inl (AttributeError ''_meta''), self1)
           | Some opts \<Rightarrow>
               if truthy (render_value v) \<or> force_empty opts
               then render_kwargs_loop self1 rest
                      (AList.update (render_operator opts) (render_value v) kwargs)
               else render_kwargs_loop self1 rest kwargs))"

definition render_query_kwargs ::
  "filter_instance \<Rightarrow> (error + (pyval \<times> pyval) list) \<times> filter_instance" where
  "render_query_kwargs self = render_kwargs_loop self (fields' self) []"

text \<open>\<open>is_active\<close>: a dictionary is true when it is not empty.\<close>

definition is_active :: "filter_instance \<Rightarrow> (error + bool) \<times> filter_instance" where
  "is_active self =
     (case render_query_kwargs self of
        (Inl e, self1) \<Rightarrow> (Inl e, self1)
      | (Inr kwargs, self1) \<Rightarrow> (Inr (kwargs \<noteq> []), self1))"

text \<open>
  What one pass of the loop of \<open>render_query_kwargs\<close> computes for a field: the key
  \<open>render_operator()\<close>, the value \<open>render_value(get_value(name))\<close>, and whether the pass
  writes the entry (the value is true, or \<open>force_empty\<close> is set).
\<close>

definition field_entry ::
  "filter_instance \<Rightarrow> string \<times> field_inst \<Rightarrow> error + pyval \<times> pyval \<times> bool" where
  "field_entry self x =
     (case fst (get_value self (fst x) PNone False) of
        Inl e \<Rightarrow> Inl e
      | Inr v \<Rightarrow>
          (case metas (own self) (meta_ref (snd x)) of
             None \<Rightarrow> Inl (AttributeError ''_meta'')
           | Some opts \<Rightarrow>
               Inr (render_operator opts, render_value v,
                    truthy (render_value v) \<or> force_empty opts)))"

text \<open>The entries that are written, in the order of the passes.\<close>

fun written :: "(pyval \<times> pyval \<times> bool) list \<Rightarrow> (pyval \<times> pyval) list" where
  "written [] = []"
| "written ((k, v, inc) # es) = (if inc then (k, v) # written es else written es)"

text \<open>The initial value declared for a field: the \<open>initial\<close> of the form field of its
  \<open>_meta\<close>, when it has both.\<close>

definition declared_initial :: "heap \<Rightarrow> field_inst \<Rightarrow> pyval option" where
  "declared_initial h f =
     (case metas h (meta_ref f) of
        None \<Rightarrow> None
      | Some opts \<Rightarrow>
          (case field opts of
             FormFieldObj r \<Rightarrow> map_option initial (forms h r)
           | NoneObj \<Rightarrow> None
           | OtherObj b n \<Rightarrow> None))"

text \<open>What the loops of the constructor leave alone in an instance: its type, its two
  flags, its fields and the copied \<open>_meta\<close> objects.\<close>

definition same_frame :: "filter_instance \<Rightarrow> filter_instance \<Rightarrow> bool" where
  "same_frame a b \<longleftrightarrow>
     filter_type b = filter_type a \<and> first_init b = first_init a \<and> is_reset b = is_reset a \<and>
     fields' b = fields' a \<and> metas (own b) = metas (own a)"

text \<open>The form field a field's \<open>_meta\<close> points to, when it has both.\<close>

definition form_ref :: "heap \<Rightarrow> field_inst \<Rightarrow> nat option" where
  "form_ref h f =
     (case metas h (meta_ref f) of
        None \<Rightarrow> None
      | Some opts \<Rightarrow>
          (case field opts of
             FormFieldObj r \<Rightarrow> Some r
           | NoneObj \<Rightarrow> None
           | OtherObj b n \<Rightarrow> None))"


section \<open>Sample declarations\<close>

text \<open>Form fields numbered in the order of their construction, field types without a
  name of their own, and the stores holding one or two such types.\<close>

abbreviation (input) char_form :: "nat \<Rightarrow> form_field" where
  "char_form c \<equiv> \<lparr>creation_counter = c, initial = PStr [], required = True\<rparr>"

abbreviation (input) plain_opts :: "nat \<Rightarrow> field_options" where
  "plain_opts r \<equiv> \<lparr>field = FormFieldObj r, operator = None, force_empty = False, name = None,
     queryset = None\<rparr>"

abbreviation (input) plain_field :: "nat \<Rightarrow> field_inst" where
  "plain_field m \<equiv> \<lparr>kind = PlainField, meta_ref = m\<rparr>"

abbreviation (input) one_type_heap :: heap where
  "one_type_heap \<equiv> \<lparr>metas = [0 \<mapsto> plain_opts 0], forms = [0 \<mapsto> char_form 3]\<rparr>"

abbreviation (input) two_type_heap :: heap where
  "two_type_heap \<equiv> \<lparr>metas = [0 \<mapsto> plain_opts 0, 1 \<mapsto> plain_opts 1],
     forms = [0 \<mapsto> char_form 3, 1 \<mapsto> char_form 1]\<rparr>"

text \<open>A validation that rejects every submission.\<close>

definition reject_all :: cleaner where
  "reject_all ffs d = None"

text \<open>Filter types with one field \<open>status\<close> and with two instances \<open>a\<close>, \<open>b\<close> of one field
  type, requests on them, and the instances they lead to.\<close>

abbreviation (input) named_opts :: "nat \<Rightarrow> string \<Rightarrow> bool \<Rightarrow> field_options" where
  "named_opts r n fe \<equiv> \<lparr>field = FormFieldObj r, operator = None, force_empty = fe,
     name = Some n, queryset = None\<rparr>"

abbreviation (input) status_filter :: filter_class where
  "status_filter \<equiv> \<lparr>fc_name = ''F'', base_fields = [(''status'', plain_field 0)],
     fc_model = ModelClass ''M''\<rparr>"

abbreviation (input) status_instance :: "bool \<Rightarrow> filter_instance" where
  "status_instance fe \<equiv>
     \<lparr>filter_type = status_filter, first_init = False, is_reset = False,
      values' = [''status'' \<mapsto> PStr []], fields' = [(''status'', plain_field 0)],
      own = \<lparr>metas = [0 \<mapsto> named_opts 0 ''status'' fe],
              forms = [0 \<mapsto> \<lparr>creation_counter = 3, initial = PStr [], required = False\<rparr>]\<rparr>,
      form = UnboundForm [(''status'', 0)]\<rparr>"

abbreviation (input) twin_filter :: filter_class where
  "twin_filter \<equiv> \<lparr>fc_name = ''F'',
     base_fields = [(''a'', plain_field 0), (''b'', plain_field 0)],
     fc_model = ModelClass ''M''\<rparr>"

abbreviation (input) twin_heap :: heap where
  "twin_heap \<equiv> \<lparr>metas = [0 \<mapsto> named_opts 0 ''a'' False], forms = [0 \<mapsto> char_form 3]\<rparr>"

abbreviation (input) twin_request :: request where
  "twin_request \<equiv> \<lparr>session = [''F'' \<mapsto> [''a'' \<mapsto> PStr ''x'', ''b'' \<mapsto> PStr ''y'']],
     modified = False, GET = Map.empty, http_method = ''GET'', POST = []\<rparr>"

abbreviation (input) twin_instance :: filter_instance where
  "twin_instance \<equiv>
     \<lparr>filter_type = twin_filter, first_init = False, is_reset = False,
      values' = [''a'' \<mapsto> PStr ''x'', ''b'' \<mapsto> PStr ''y''],
      fields' = [(''a'', plain_field 0), (''b'', plain_field 0)],
      own = \<lparr>metas = [0 \<mapsto> named_opts 0 ''a'' False],
              forms = [0 \<mapsto> \<lparr>creation_counter = 3, initial = PStr ''y'', required = False\<rparr>]\<rparr>,
      form = UnboundForm [(''a'', 0), (''b'', 0)]\<rparr>"

text \<open>A first request, a reset request and a follow-up request.\<close>

abbreviation (input) fresh_request :: request where
  "fresh_request \<equiv> \<lparr>session = Map.empty, modified = False, GET = Map.empty,
     http_method = ''GET'', POST = []\<rparr>"



text \<open>Submissions to the filter with the field \<open>status\<close>, and a filter with a plain field
  \<open>status\<close> and a model field \<open>owner\<close>.\<close>

abbreviation (input) status_heap :: heap where
  "status_heap \<equiv> \<lparr>metas = [0 \<mapsto> named_opts 0 ''status'' False], forms = [0 \<mapsto> char_form 3]\<rparr>"

abbreviation (input) bound_status_instance ::
  "bool \<Rightarrow> pyval \<Rightarrow> (string \<times> string) list \<Rightarrow> filter_instance" where
  "bound_status_instance fi v d \<equiv>
     \<lparr>filter_type = status_filter, first_init = fi, is_reset = False,
      values' = [''status'' \<mapsto> v], fields' = [(''status'', plain_field 0)],
      own = \<lparr>metas = [0 \<mapsto> named_opts 0 ''status'' False],
              forms = [0 \<mapsto> \<lparr>creation_counter = 3, initial = v, required = False\<rparr>]\<rparr>,
      form = BoundForm [(''status'', 0)] d None\<rparr>"

abbreviation (input) post_request :: "(string \<rightharpoonup> (string \<rightharpoonup> pyval)) \<Rightarrow> request" where
  "post_request s \<equiv> \<lparr>session = s, modified = False, GET = Map.empty, http_method = ''POST'',
     POST = [(''status'', ''bad'')]\<rparr>"

abbreviation (input) owner_filter :: filter_class where
  "owner_filter \<equiv> \<lparr>fc_name = ''F'',
     base_fields = [(''status'', plain_field 0), (''owner'', \<lparr>kind = ModelFieldKind, meta_ref = 1\<rparr>)],
     fc_model = ModelClass ''M''\<rparr>"

abbreviation (input) owner_metas :: "nat \<rightharpoonup> field_options" where
  "owner_metas \<equiv> [0 \<mapsto> named_opts 0 ''status'' False,
     1 \<mapsto> \<lparr>field = FormFieldObj 1, operator = None, force_empty = False,
            name = Some ''owner'', queryset = Some [PObj (PInt 1) ''ann'']\<rparr>]"

abbreviation (input) owner_heap :: heap where
  "owner_heap \<equiv> \<lparr>metas = owner_metas,
     forms = [0 \<mapsto> \<lparr>creation_counter = 3, initial = PStr ''open'', required = True\<rparr>,
              1 \<mapsto> \<lparr>creation_counter = 4, initial = PNone, required = True\<rparr>]\<rparr>"

abbreviation (input) owner_instance :: "bool \<Rightarrow> filter_instance" where
  "owner_instance fi \<equiv>
     \<lparr>filter_type = owner_filter, first_init = fi, is_reset = False,
      values' = [''status'' \<mapsto> PStr ''open'', ''owner'' \<mapsto> PNone],
      fields' = [(''status'', plain_field 0), (''owner'', \<lparr>kind = ModelFieldKind, meta_ref = 1\<rparr>)],
      own = \<lparr>metas = owner_metas,
              forms = [0 \<mapsto> \<lparr>creation_counter = 3, initial = PStr ''open'', required = False\<rparr>,
                       1 \<mapsto> \<lparr>creation_counter = 4, initial = PNone, required = False\<rparr>]\<rparr>,
      form = UnboundForm [(''status'', 0), (''owner'', 1)]\<rparr>"

abbreviation (input) owner_request :: request where
  "owner_request \<equiv> \<lparr>session = [''F'' \<mapsto> [''status'' \<mapsto> PStr ''open'', ''owner'' \<mapsto> PNone]],
     modified = True, GET = Map.empty, http_method = ''GET'', POST = []\<rparr>"

text \<open>The same declarations with a primary key, \<open>1\<close>, as the initial value of \<open>owner\<close>'s
  form field.\<close>

abbreviation (input) pk_initial_heap :: heap where
  "pk_initial_heap \<equiv> \<lparr>metas = owner_metas,
     forms = [0 \<mapsto> \<lparr>creation_counter = 3, initial = PStr ''open'', required = True\<rparr>,
              1 \<mapsto> \<lparr>creation_counter = 4, initial = PInt 1, required = True\<rparr>]\<rparr>"




section \<open>Properties of fields\<close>

lemma unstore_store_plain: "store PlainField v = Inr s \<Longrightarrow> unstore mo PlainField s = Inr v"
  by simp

lemma unstore_store_none:
  "store k PNone = Inr PNone \<and> unstore mo k PNone = Inr PNone"
  by (cases k) simp_all

lemma filter_pk_unique:
  "distinct (map pk rows) \<Longrightarrow> r \<in> set rows \<Longrightarrow> filter (\<lambda>r'. pk r' = pk r) rows = [r]"
proof (induction rows)
  case Nil
  then show ?case by simp
next
  case (Cons a rows)
  show ?case
  proof (cases "a = r")
    case True
    with Cons.prems have "\<forall>x\<in>set rows. pk x \<noteq> pk r" by (auto simp: image_iff)
    then have "filter (\<lambda>r'. pk r' = pk r) rows = []" by (simp add: filter_empty_conv)
    with True show ?thesis by simp
  next
    case False
    with Cons.prems have "r \<in> set rows" "pk a \<noteq> pk r" "distinct (map pk rows)"
      by (auto simp: image_iff)
    with Cons.IH show ?thesis by simp
  qed
qed

lemma qs_get_present:
  assumes "distinct (map pk rows)" and "PObj k d \<in> set rows"
  shows "qs_get rows k = Inr (PObj k d)"
  using filter_pk_unique [OF assms] by (simp add: qs_get_def)

lemma qs_get_absent:
  assumes "\<forall>r\<in>set rows. pk r \<noteq> Inr k"
  shows "qs_get rows k = Inl DoesNotExist"
proof -
  have "filter (\<lambda>r. pk r = Inr k) rows = []"
    using assms by (simp add: filter_empty_conv)
  then show ?thesis by (simp add: qs_get_def)
qed

text \<open>A model instance whose primary key is true comes back from the session as long as
  its row is selected by the queryset (primary keys being unique).\<close>

lemma modelfield_roundtrip_truthy_pk:
  assumes "distinct (map pk rows)" and "PObj k d \<in> set rows" and "truthy k"
    and "queryset opts = Some rows"
  shows "\<exists>s. store ModelFieldKind (PObj k d) = Inr s \<and>
             unstore (Some opts) ModelFieldKind s = Inr (PObj k d)"
  using assms qs_get_present [OF assms(1,2)] by simp

text \<open>
  C6 (round trip).  A plain field returns what was stored and \<open>None\<close> comes back as
  \<open>None\<close> (\<open>unstore_store_plain\<close>, \<open>unstore_store_none\<close>), and a model instance comes back
  when its primary key is true (\<open>modelfield_roundtrip_truthy_pk\<close>).  The instance with
  primary key \<open>0\<close> does not: its row is in the queryset and \<open>get\<close> would find it, \<open>store\<close>
  keeps the key \<open>0\<close>, and \<open>unstore\<close> tests the key for truth and answers \<open>None\<close> without
  asking the queryset.
\<close>

theorem modelfield_roundtrip_pk_zero:
  "qs_get [PObj (PInt 0) ''row''] (PInt 0) = Inr (PObj (PInt 0) ''row'') \<and>
   store ModelFieldKind (PObj (PInt 0) ''row'') = Inr (PInt 0) \<and>
   unstore (Some \<lparr>field = FormFieldObj 0, operator = None, force_empty = False,
                   name = Some ''owner'', queryset = Some [PObj (PInt 0) ''row'']\<rparr>)
     ModelFieldKind (PInt 0) = Inr PNone"
  by (simp add: qs_get_def)

text \<open>
  C7 as stated (a stored key that no longer resolves is unstored as \<open>None\<close>) fails: the
  row with key \<open>5\<close> is gone from the queryset, and \<open>unstore\<close> lets the queryset's
  \<open>DoesNotExist\<close> through.
\<close>

theorem unstore_deleted_record_raises:
  "unstore (Some \<lparr>field = FormFieldObj 0, operator = None, force_empty = False,
                   name = Some ''owner'', queryset = Some [PObj (PInt 7) ''kept'']\<rparr>)
     ModelFieldKind (PInt 5) = Inl DoesNotExist"
  by (simp add: qs_get_def)

text \<open>
  C7, amended: a model field unstores the stored key \<open>None\<close> as \<open>None\<close>, without raising;
  a true key that \<open>store\<close> produced from a model instance (its primary key) and that no
  row of the queryset carries any more, the rows' keys being of the key's kind, makes
  \<open>unstore\<close> raise the queryset's \<open>DoesNotExist\<close>.  Nothing is said of the other stored
  keys.
\<close>

theorem unstore_model_field:
  "unstore mo ModelFieldKind PNone = Inr PNone \<and>
   (store ModelFieldKind r = Inr v \<and> truthy v \<and> queryset opts = Some rows \<and>
    (\<forall>x\<in>set rows. \<exists>k. pk x = Inr k \<and> same_kind k v \<and> k \<noteq> v) \<longrightarrow>
      unstore (Some opts) ModelFieldKind v = Inl DoesNotExist)"
proof -
  have "qs_get rows v = Inl DoesNotExist"
    if "\<forall>x\<in>set rows. \<exists>k. pk x = Inr k \<and> same_kind k v \<and> k \<noteq> v"
  proof (rule qs_get_absent)
    show "\<forall>x\<in>set rows. pk x \<noteq> Inr v" using that by fastforce
  qed
  then show ?thesis by simp
qed

text \<open>C7, amended, at the key \<open>None\<close> and at the key \<open>5\<close> stored from a row that has since
  been deleted.\<close>

theorem unstore_model_field_witness:
  "unstore None ModelFieldKind PNone = Inr PNone \<and>
   store ModelFieldKind (PObj (PInt 5) ''gone'') = Inr (PInt 5) \<and>
   truthy (PInt 5) \<and> pk (PObj (PInt 7) ''kept'') = Inr (PInt 7) \<and>
   same_kind (PInt 7) (PInt 5) \<and> PInt 7 \<noteq> PInt 5 \<and>
   unstore (Some \<lparr>field = FormFieldObj 0, operator = None, force_empty = False,
                   name = Some ''owner'', queryset = Some [PObj (PInt 7) ''kept'']\<rparr>)
     ModelFieldKind (PInt 5) = Inl DoesNotExist"
  using unstore_model_field [of None "PObj (PInt 5) ''gone''" "PInt 5"
      "\<lparr>field = FormFieldObj 0, operator = None, force_empty = False,
        name = Some ''owner'', queryset = Some [PObj (PInt 7) ''kept'']\<rparr>"
      "[PObj (PInt 7) ''kept'']"]
  by simp

text \<open>Whatever \<open>Meta.field\<close> holds, if it is not a form field the check raises; and every
  error but the \<open>AttributeError\<close> names the class.\<close>

lemma check_field_options_fails:
  assumes "\<forall>r. field opts \<noteq> FormFieldObj r"
  shows "\<exists>e. check_field_options cls opts = Inl e"
  using assms by (cases "field opts") (auto simp: check_field_options_def split: option.splits)

lemma check_field_options_names_class:
  assumes "check_field_options cls opts = Inl e" and "e \<noteq> AttributeError ''__name__''"
  shows "names_class cls e"
  using assms
  by (cases "field opts")
     (auto simp: check_field_options_def names_class_def split: option.splits if_splits)

text \<open>
  C9 (a \<open>Meta.field\<close> that is not a form field fails the declaration with a configuration
  error naming the field type).  Declaring \<open>StatusField\<close> with a \<open>Meta.field\<close> that is an
  instance of another class, true and without \<open>__name__\<close> (a string, say), raises
  \<open>AttributeError\<close> while the message of the \<open>TypeError\<close> is being formatted; that error
  does not name \<open>StatusField\<close>.
\<close>

theorem field_type_instance_without_name:
  "FieldMetaClass_new ''StatusField'' False
     (Some \<lparr>m_field = OtherObj True None, m_operator = None, m_force_empty = None,
            m_name = None, m_queryset = None\<rparr>) = Inl (AttributeError ''__name__'') \<and>
   \<not> names_class ''StatusField'' (AttributeError ''__name__'')"
  by (simp add: FieldMetaClass_new_def FieldOptions_init_def check_field_options_def
      names_class_def)

section \<open>Properties of filter types\<close>

lemma collect_fields_OtherE:
  assumes "collect_fields h ((key, OtherAttr) # attrs) = (r, h')"
  obtains r1 where "collect_fields h attrs = (r1, h')"
    and "r = (case r1 of Inl e \<Rightarrow> Inl e | Inr (cf, rest) \<Rightarrow> Inr (cf, (key, OtherAttr) # rest))"
proof (cases "collect_fields h attrs")
  case (Pair r1 h1)
  with assms have "h1 = h' \<and>
      r = (case r1 of Inl e \<Rightarrow> Inl e | Inr (cf, rest) \<Rightarrow> Inr (cf, (key, OtherAttr) # rest))"
    by (cases r1) auto
  with Pair show ?thesis by (intro that) simp_all
qed

lemma collect_fields_FieldE:
  assumes "collect_fields h ((key, FieldAttr f) # attrs) = (r, h')"
  obtains (nometa) "metas h (meta_ref f) = None" and "r = Inl (AttributeError ''_meta'')"
      and "h' = h"
  | (step) opts r1 where "metas h (meta_ref f) = Some opts"
      and "collect_fields (default_name h f opts key) attrs = (r1, h')"
      and "r = (case r1 of Inl e \<Rightarrow> Inl e | Inr (cf, rest) \<Rightarrow> Inr ((key, f) # cf, rest))"
proof (cases "metas h (meta_ref f)")
  case None
  with assms have "r = Inl (AttributeError ''_meta'') \<and> h' = h" by simp
  with None show ?thesis by (intro nometa) simp_all
next
  case (Some opts)
  show ?thesis
  proof (cases "collect_fields (default_name h f opts key) attrs")
    case (Pair r1 h1)
    with assms Some have "h1 = h' \<and>
      r = (case r1 of Inl e \<Rightarrow> Inl e | Inr (cf, rest) \<Rightarrow> Inr ((key, f) # cf, rest))"
      by (cases r1) auto
    with Pair Some show ?thesis by (intro step [of opts r1]) simp_all
  qed
qed

lemma collect_fields_declared:
  "collect_fields h attrs = (Inr (cf, rest), h') \<Longrightarrow> cf = declared_fields attrs"
proof (induction h attrs arbitrary: cf rest h' rule: collect_fields.induct)
  case (1 h)
  then show ?case by simp
next
  case (2 h key attrs)
  from "2.prems" obtain r1 where r1: "collect_fields h attrs = (r1, h')"
    and r: "Inr (cf, rest) = (case r1 of Inl e \<Rightarrow> Inl e
                | Inr (cf, rest) \<Rightarrow> Inr (cf, (key, OtherAttr) # rest))"
    by (rule collect_fields_OtherE)
  from r obtain rest1 where "r1 = Inr (cf, rest1)"
    by (cases r1) auto
  with r1 "2.IH" show ?case by simp
next
  case (3 h key f attrs)
  from "3.prems" show ?case
  proof (cases rule: collect_fields_FieldE)
    case nometa
    then show ?thesis by simp
  next
    case (step opts r1)
    from step(3) obtain cf1 rest1 where "r1 = Inr (cf1, rest1)" and "cf = (key, f) # cf1"
      by (cases r1) auto
    with step "3.IH" [of opts cf1 rest1 h'] show ?thesis by simp
  qed
qed

lemma default_name_forms: "forms (default_name h f opts key) = forms h"
  by (simp add: default_name_def)

lemma collect_fields_forms:
  "collect_fields h attrs = (r, h') \<Longrightarrow> forms h' = forms h"
proof (induction h attrs arbitrary: r h' rule: collect_fields.induct)
  case (1 h)
  then show ?case by simp
next
  case (2 h key attrs)
  from "2.prems" obtain r1 where "collect_fields h attrs = (r1, h')"
    by (rule collect_fields_OtherE)
  with "2.IH" show ?case by simp
next
  case (3 h key f attrs)
  from "3.prems" show ?case
  proof (cases rule: collect_fields_FieldE)
    case nometa
    then show ?thesis by simp
  next
    case (step opts r1)
    with "3.IH" [of opts r1 h'] show ?thesis by (simp add: default_name_forms)
  qed
qed

lemma meta_kept_refl: "meta_kept a a"
proof (cases a)
  case None
  then show ?thesis by (simp add: meta_kept_def)
next
  case (Some x)
  have "Some x = Some (x\<lparr>name := name x\<rparr>)" by simp
  then show ?thesis unfolding meta_kept_def Some by (auto intro!: exI [of _ "name x"])
qed

lemma meta_kept_trans: "meta_kept a b \<Longrightarrow> meta_kept b c \<Longrightarrow> meta_kept a c"
  by (cases a) (auto simp: meta_kept_def)

lemma default_name_meta_kept:
  assumes "metas h (meta_ref f) = Some opts"
  shows "meta_kept (metas h m) (metas (default_name h f opts key) m)"
proof (cases "\<not> str_truthy (name opts) \<and> m = meta_ref f")
  case True
  have "Some (opts\<lparr>name := Some key\<rparr>) = Some (opts\<lparr>name := Some key\<rparr>) \<and>
        (str_truthy (name opts) \<longrightarrow> Some key = name opts)"
    using True by simp
  then show ?thesis using True assms
    by (auto simp: default_name_def meta_kept_def)
next
  case False
  then have "metas (default_name h f opts key) m = metas h m"
    by (auto simp: default_name_def)
  then show ?thesis by (simp add: meta_kept_refl)
qed

lemma collect_fields_meta_kept:
  "collect_fields h attrs = (r, h') \<Longrightarrow> meta_kept (metas h m) (metas h' m)"
proof (induction h attrs arbitrary: r h' rule: collect_fields.induct)
  case (1 h)
  then show ?case by (simp add: meta_kept_refl)
next
  case (2 h key attrs)
  from "2.prems" obtain r1 where "collect_fields h attrs = (r1, h')"
    by (rule collect_fields_OtherE)
  with "2.IH" show ?case by simp
next
  case (3 h key f attrs)
  from "3.prems" show ?case
  proof (cases rule: collect_fields_FieldE)
    case nometa
    then show ?thesis by (simp add: meta_kept_refl)
  next
    case (step opts r1)
    from default_name_meta_kept [OF step(1)] "3.IH" [OF step(1) step(2)]
    show ?thesis by (rule meta_kept_trans)
  qed
qed

lemma meta_kept_counter:
  assumes "\<And>m. meta_kept (metas h m) (metas h' m)" and "forms h' = forms h"
  shows "creation_counter_of h' f = creation_counter_of h f"
proof (cases "metas h (meta_ref f)")
  case None
  with assms(1) [of "meta_ref f"] show ?thesis
    by (simp add: creation_counter_of_def meta_kept_def)
next
  case (Some x)
  with assms(1) [of "meta_ref f"] obtain n where "metas h' (meta_ref f) = Some (x\<lparr>name := n\<rparr>)"
    by (auto simp: meta_kept_def)
  with Some assms(2) show ?thesis by (simp add: creation_counter_of_def split: pyobj.splits)
qed

lemma collect_fields_counter:
  assumes "collect_fields h attrs = (r, h')"
  shows "creation_counter_of h' f = creation_counter_of h f"
  using collect_fields_meta_kept [OF assms] collect_fields_forms [OF assms]
  by (rule meta_kept_counter)


lemma fold_update_fresh:
  "distinct (map fst xs) \<Longrightarrow> fst ` set xs \<inter> fst ` set acc = {} \<Longrightarrow>
     fold (\<lambda>(k, v). AList.update k v) xs acc = acc @ xs"
proof (induction xs arbitrary: acc)
  case Nil
  then show ?case by simp
next
  case (Cons a xs)
  obtain k v where a: "a = (k, v)" by (cases a)
  with Cons.prems have fresh: "k \<notin> fst ` set acc" by auto
  have upd: "AList.update k v acc = acc @ [(k, v)]"
    using fresh by (induction acc) auto
  have "fst ` set xs \<inter> fst ` set (acc @ [(k, v)]) = {}"
    using Cons.prems a by (auto simp: image_iff)
  with Cons.IH [of "acc @ [(k, v)]"] Cons.prems a upd show ?case by simp
qed

lemma OrderedDict_distinct_keys: "distinct (map fst xs) \<Longrightarrow> OrderedDict xs = xs"
  using fold_update_fresh [of xs "[]"] by (simp add: OrderedDict_def)

lemma fold_update_distinct:
  "distinct (map fst acc) \<Longrightarrow> distinct (map fst (fold (\<lambda>(k, v). AList.update k v) xs acc))"
proof (induction xs arbitrary: acc)
  case Nil
  then show ?case by simp
next
  case (Cons a xs)
  obtain k v where a: "a = (k, v)" by (cases a)
  from Cons.prems have "distinct (map fst (AList.update k v acc))" by (rule distinct_update)
  with Cons.IH a show ?case by simp
qed

lemma OrderedDict_distinct: "distinct (map fst (OrderedDict xs))"
  using fold_update_distinct [of "[]" xs] by (simp add: OrderedDict_def)

lemma declared_fields_keys: "set (map fst (declared_fields attrs)) \<subseteq> set (map fst attrs)"
  by (induction attrs rule: declared_fields.induct) auto

lemma declared_fields_distinct:
  "distinct (map fst attrs) \<Longrightarrow> distinct (map fst (declared_fields attrs))"
proof (induction attrs rule: declared_fields.induct)
  case 1
  then show ?case by simp
next
  case (2 key attrs)
  then show ?case by simp
next
  case (3 key f attrs)
  with declared_fields_keys [of attrs] show ?case by auto
qed

lemma declared_fields_mset:
  "mset attrs = mset attrs' \<Longrightarrow> mset (declared_fields attrs) = mset (declared_fields attrs')"
proof -
  have "mset (declared_fields as) =
          image_mset (\<lambda>(k, a). (k, case a of FieldAttr f \<Rightarrow> f))
            (filter_mset (\<lambda>(k, a). a \<noteq> OtherAttr) (mset as))" for as
    by (induction as rule: declared_fields.induct) simp_all
  then show "mset attrs = mset attrs' \<Longrightarrow> mset (declared_fields attrs) = mset (declared_fields attrs')"
    by simp
qed

lemma sort_keys_decorate:
  "sort_keys h cf = Inr keyed \<Longrightarrow>
     keyed = map (\<lambda>x. (counter_key h x, x)) cf \<and>
     (\<forall>x\<in>set cf. creation_counter_of h (snd x) = Inr (counter_key h x))"
proof (induction cf arbitrary: keyed)
  case Nil
  then show ?case by simp
next
  case (Cons a cf)
  obtain key f where a: "a = (key, f)" by (cases a)
  from Cons.prems a obtain c where c: "creation_counter_of h f = Inr c"
    by (cases "creation_counter_of h f") simp_all
  from Cons.prems a c obtain ys where ys: "sort_keys h cf = Inr ys"
    by (cases "sort_keys h cf") simp_all
  from Cons.prems a c ys have "keyed = (c, key, f) # ys" by simp
  with Cons.IH [OF ys] a c show ?case by (simp add: counter_key_def)
qed

lemma insort_key_decorate:
  "insort_key fst (g x, x) (map (\<lambda>x. (g x, x)) ys) = map (\<lambda>x. (g x, x)) (insort_key g x ys)"
  by (induction ys) simp_all

lemma sort_key_decorate:
  "map snd (sort_key fst (map (\<lambda>x. (g x, x)) xs)) = sort_key g xs"
proof -
  have "sort_key fst (map (\<lambda>x. (g x, x)) xs) = map (\<lambda>x. (g x, x)) (sort_key g xs)"
    by (induction xs) (simp_all add: insort_key_decorate)
  then show ?thesis by (simp add: comp_def)
qed

lemma DynamicFilterMetaClass_new_SomeE:
  assumes "DynamicFilterMetaClass_new h cls b attrs mdl = (Inr (Some flt), h')"
  obtains rest keyed where "collect_fields h attrs = (Inr (declared_fields attrs, rest), h')"
    and "sort_keys h' (declared_fields attrs) = Inr keyed"
    and "base_fields flt = OrderedDict (map snd (sort_key fst keyed))"
    and "fc_name flt = cls" and "\<not> b"
proof (cases "collect_fields h attrs")
  case (Pair r h1)
  show ?thesis
  proof (cases r)
    case (Inl e)
    with Pair assms show ?thesis by (simp add: DynamicFilterMetaClass_new_def)
  next
    case (Inr p)
    obtain cf rest where p: "p = (cf, rest)" by (cases p)
    from Pair Inr p have cf: "cf = declared_fields attrs"
      by (simp add: collect_fields_declared)
    show ?thesis
    proof (cases "sort_keys h1 cf")
      case (Inl e)
      with Pair \<open>r = Inr p\<close> p assms show ?thesis
        by (simp add: DynamicFilterMetaClass_new_def)
    next
      case (Inr keyed)
      from Pair \<open>r = Inr p\<close> p Inr assms
      have "h1 = h' \<and> \<not> b \<and> fc_name flt = cls \<and>
            base_fields flt = OrderedDict (map snd (sort_key fst keyed))"
        by (cases mdl)
           (auto simp: DynamicFilterMetaClass_new_def Let_def split: if_splits option.splits)
      with Pair \<open>r = Inr p\<close> p cf Inr show ?thesis
        by (intro that [of rest keyed]) simp_all
    qed
  qed
qed

lemma base_fields_sorted_declared:
  assumes "DynamicFilterMetaClass_new h cls b attrs mdl = (Inr (Some flt), h')"
    and "distinct (map fst attrs)"
  shows "base_fields flt = sort_key (counter_key h) (declared_fields attrs)"
    and "\<forall>x\<in>set (declared_fields attrs). creation_counter_of h (snd x) = Inr (counter_key h x)"
proof -
  from assms(1) obtain rest keyed
    where col: "collect_fields h attrs = (Inr (declared_fields attrs, rest), h')"
      and keys: "sort_keys h' (declared_fields attrs) = Inr keyed"
      and bf: "base_fields flt = OrderedDict (map snd (sort_key fst keyed))"
    by (rule DynamicFilterMetaClass_new_SomeE)
  have same: "creation_counter_of h' f = creation_counter_of h f" for f
    using col by (rule collect_fields_counter)
  then have ck: "counter_key h' = counter_key h"
    by (simp add: counter_key_def fun_eq_iff)
  from sort_keys_decorate [OF keys] ck same
  have keyed: "keyed = map (\<lambda>x. (counter_key h x, x)) (declared_fields attrs)"
    and ctr: "\<forall>x\<in>set (declared_fields attrs). creation_counter_of h (snd x) = Inr (counter_key h x)"
    by simp_all
  from keyed have srt: "map snd (sort_key fst keyed) = sort_key (counter_key h) (declared_fields attrs)"
    by (simp add: sort_key_decorate)
  have "distinct (map fst (declared_fields attrs))"
    using assms(2) by (rule declared_fields_distinct)
  then have "distinct (map fst (sort_key (counter_key h) (declared_fields attrs)))"
    by (metis distinct_map distinct_sort set_sort)
  with bf srt show "base_fields flt = sort_key (counter_key h) (declared_fields attrs)"
    by (simp add: OrderedDict_distinct_keys)
  from ctr show "\<forall>x\<in>set (declared_fields attrs). creation_counter_of h (snd x) = Inr (counter_key h x)" .
qed

text \<open>The \<open>base_fields\<close> of a filter type are an \<open>OrderedDict\<close>: no name occurs twice.\<close>

lemma base_fields_distinct:
  assumes "DynamicFilterMetaClass_new h cls b attrs mdl = (Inr (Some flt), h')"
  shows "distinct (map fst (base_fields flt))"
proof -
  from assms obtain rest keyed
    where "collect_fields h attrs = (Inr (declared_fields attrs, rest), h')"
      and "sort_keys h' (declared_fields attrs) = Inr keyed"
      and "base_fields flt = OrderedDict (map snd (sort_key fst keyed))"
    by (rule DynamicFilterMetaClass_new_SomeE)
  then show ?thesis by (simp add: OrderedDict_distinct)
qed

lemma DynamicFilterMetaClass_new_heap:
  assumes "DynamicFilterMetaClass_new h cls b attrs mdl = (r, h')"
  obtains r0 where "collect_fields h attrs = (r0, h')"
proof (cases "collect_fields h attrs")
  case (Pair r0 h1)
  have "h1 = h'"
  proof (cases r0)
    case (Inl e)
    with Pair assms show ?thesis by (simp add: DynamicFilterMetaClass_new_def)
  next
    case (Inr p)
    obtain cf rest where p: "p = (cf, rest)" by (cases p)
    show ?thesis
    proof (cases "sort_keys h1 cf")
      case (Inl e)
      with Pair Inr p assms show ?thesis by (simp add: DynamicFilterMetaClass_new_def)
    next
      case (Inr keyed)
      with Pair \<open>r0 = Inr p\<close> p assms show ?thesis
        by (cases mdl)
           (auto simp: DynamicFilterMetaClass_new_def Let_def split: if_splits option.splits)
    qed
  qed
  with Pair that show ?thesis by simp
qed

lemma meta_kept_named:
  assumes "meta_kept (Some x) b" and "name x = Some k" and "k \<noteq> []"
  shows "\<exists>y. b = Some y \<and> name y = Some k"
  using assms by (auto simp: meta_kept_def)

lemma collect_fields_names_first:
  assumes "collect_fields h (pre @ (k1, FieldAttr f) # post) = (r, h')"
    and "metas h (meta_ref f) = Some opts" and "\<not> str_truthy (name opts)" and "k1 \<noteq> []"
    and "\<forall>(k, a)\<in>set pre. \<forall>g. a = FieldAttr g \<longrightarrow>
           meta_ref g \<noteq> meta_ref f \<and> metas h (meta_ref g) \<noteq> None"
  shows "\<exists>y. metas h' (meta_ref f) = Some y \<and> name y = Some k1"
  using assms
proof (induction pre arbitrary: h r)
  case Nil
  from Nil.prems(1) have "collect_fields h ((k1, FieldAttr f) # post) = (r, h')" by simp
  then show ?case
  proof (cases rule: collect_fields_FieldE)
    case nometa
    with Nil.prems(2) show ?thesis by simp
  next
    case (step opts' r1)
    with Nil.prems(2) have "opts' = opts" by simp
    with Nil.prems(3) have "metas (default_name h f opts' k1) (meta_ref f) = Some (opts\<lparr>name := Some k1\<rparr>)"
      by (simp add: default_name_def)
    with collect_fields_meta_kept [OF step(2), of "meta_ref f"]
    have "meta_kept (Some (opts\<lparr>name := Some k1\<rparr>)) (metas h' (meta_ref f))" by simp
    moreover have "name (opts\<lparr>name := Some k1\<rparr>) = Some k1" by simp
    ultimately show ?thesis using Nil.prems(4) by (rule meta_kept_named)
  qed
next
  case (Cons p pre)
  obtain k a where p: "p = (k, a)" by (cases p)
  show ?case
  proof (cases a)
    case OtherAttr
    with Cons.prems(1) p have "collect_fields h ((k, OtherAttr) # pre @ (k1, FieldAttr f) # post) = (r, h')"
      by simp
    then obtain r1 where "collect_fields h (pre @ (k1, FieldAttr f) # post) = (r1, h')"
      by (rule collect_fields_OtherE)
    with Cons.IH [of h r1] Cons.prems show ?thesis by simp
  next
    case (FieldAttr g)
    with Cons.prems(5) p have g: "meta_ref g \<noteq> meta_ref f" "metas h (meta_ref g) \<noteq> None"
      by auto
    from Cons.prems(1) p FieldAttr
    have "collect_fields h ((k, FieldAttr g) # pre @ (k1, FieldAttr f) # post) = (r, h')"
      by simp
    then show ?thesis
    proof (cases rule: collect_fields_FieldE)
      case nometa
      with g show ?thesis by simp
    next
      case (step optsg r1)
      let ?h1 = "default_name h g optsg k"
      have same: "metas ?h1 (meta_ref f) = Some opts"
        using g(1) Cons.prems(2) by (simp add: default_name_def)
      have dom: "metas h m \<noteq> None \<Longrightarrow> metas ?h1 m \<noteq> None" for m
        by (simp add: default_name_def)
      have "\<forall>(k, a)\<in>set pre. \<forall>g. a = FieldAttr g \<longrightarrow>
              meta_ref g \<noteq> meta_ref f \<and> metas ?h1 (meta_ref g) \<noteq> None"
        using Cons.prems(5) dom by fastforce
      with Cons.IH [OF step(2) same Cons.prems(3,4)] show ?thesis by simp
    qed
  qed
qed

lemma set_base_fields:
  assumes "DynamicFilterMetaClass_new h cls b attrs mdl = (Inr (Some flt), h')"
    and "distinct (map fst attrs)" and "(k, FieldAttr f) \<in> set attrs"
  shows "(k, f) \<in> set (base_fields flt)"
proof -
  have "(k, f) \<in> set (declared_fields attrs)"
    using assms(3) by (induction attrs rule: declared_fields.induct) auto
  with base_fields_sorted_declared(1) [OF assms(1,2)] show ?thesis by simp
qed

text \<open>
  C10.  A field whose \<open>_meta\<close> has no name is declared under the attribute \<open>k1\<close> of a first
  filter type (no earlier attribute of the class body shares its \<open>_meta\<close>, and the earlier
  fields have one).  The registration writes \<open>k1\<close> into the field's \<open>_meta\<close>, whatever the
  outcome \<open>r1\<close> of the declaration.  When the same field is then declared under \<open>k2\<close> on
  a second filter type, its \<open>_meta\<close> still carries the name \<open>k1\<close>, while the second
  type's \<open>base_fields\<close> holds it under \<open>k2\<close>.
\<close>

theorem registration_name_sticks:
  assumes "DynamicFilterMetaClass_new h cls1 b1 (pre @ (k1, FieldAttr f) # post) mdl1 = (r1, h1)"
    and "DynamicFilterMetaClass_new h1 cls2 b2 attrs2 mdl2 = (r2, h2)"
    and "metas h (meta_ref f) = Some opts" and "\<not> str_truthy (name opts)" and "k1 \<noteq> []"
    and "\<forall>(k, a)\<in>set pre. \<forall>g. a = FieldAttr g \<longrightarrow>
           meta_ref g \<noteq> meta_ref f \<and> metas h (meta_ref g) \<noteq> None"
    and "(k2, FieldAttr f) \<in> set attrs2" and "distinct (map fst attrs2)"
  shows "(\<exists>y. metas h1 (meta_ref f) = Some y \<and> name y = Some k1) \<and>
         (\<exists>y. metas h2 (meta_ref f) = Some y \<and> name y = Some k1) \<and>
         (\<forall>flt2. r2 = Inr (Some flt2) \<longrightarrow> (k2, f) \<in> set (base_fields flt2))"
proof -
  from assms(1) obtain r0 where "collect_fields h (pre @ (k1, FieldAttr f) # post) = (r0, h1)"
    by (rule DynamicFilterMetaClass_new_heap)
  from collect_fields_names_first [OF this assms(3,4,5,6)]
  obtain y where y: "metas h1 (meta_ref f) = Some y" "name y = Some k1" by blast
  from assms(2) obtain r0' where "collect_fields h1 attrs2 = (r0', h2)"
    by (rule DynamicFilterMetaClass_new_heap)
  from collect_fields_meta_kept [OF this, of "meta_ref f"] y
  have "meta_kept (Some y) (metas h2 (meta_ref f))" by simp
  from meta_kept_named [OF this y(2) assms(5)]
  have second: "\<exists>y. metas h2 (meta_ref f) = Some y \<and> name y = Some k1" .
  have "(k2, f) \<in> set (base_fields flt2)" if "r2 = Inr (Some flt2)" for flt2
    using set_base_fields [OF _ assms(8,7)] assms(2) that by simp
  with y second show ?thesis by blast
qed

text \<open>
  C4, amended.  For a filter type whose declaration succeeds, \<open>base_fields\<close> holds the
  fields declared in the class body, each with a readable creation counter, in
  ascending order of the counter of the field's form field; fields with the same
  counter (they share one form field) keep the order in which the class body lists
  them; and when the counters are pairwise different, the order of \<open>base_fields\<close> does
  not depend on the order of the attributes.
\<close>

theorem base_fields_order:
  assumes "DynamicFilterMetaClass_new h cls b attrs mdl = (Inr (Some flt), h')"
    and "distinct (map fst attrs)"
  shows "sorted (map (counter_key h) (base_fields flt)) \<and>
         (\<forall>x\<in>set (base_fields flt). creation_counter_of h (snd x) = Inr (counter_key h x)) \<and>
         mset (base_fields flt) = mset (declared_fields attrs) \<and>
         (\<forall>c. filter (\<lambda>x. counter_key h x = c) (base_fields flt) =
              filter (\<lambda>x. counter_key h x = c) (declared_fields attrs)) \<and>
         (\<forall>attrs2 flt2 h2.
            mset attrs2 = mset attrs \<and>
            distinct (map (counter_key h) (declared_fields attrs)) \<and>
            DynamicFilterMetaClass_new h cls b attrs2 mdl = (Inr (Some flt2), h2) \<longrightarrow>
            base_fields flt2 = base_fields flt)"
proof -
  note bf = base_fields_sorted_declared [OF assms]
  have inv: "base_fields flt2 = base_fields flt"
    if a: "mset attrs2 = mset attrs"
      and d: "distinct (map (counter_key h) (declared_fields attrs))"
      and n: "DynamicFilterMetaClass_new h cls b attrs2 mdl = (Inr (Some flt2), h2)"
    for attrs2 flt2 h2
  proof -
    from a have "mset (map fst attrs2) = mset (map fst attrs)" by simp
    with assms(2) have "distinct (map fst attrs2)"
      by (metis mset_eq_imp_distinct_iff)
    from base_fields_sorted_declared(1) [OF n this]
    have bf2: "base_fields flt2 = sort_key (counter_key h) (declared_fields attrs2)" .
    have m: "mset (declared_fields attrs2) = mset (declared_fields attrs)"
      using a by (rule declared_fields_mset)
    then have "set (declared_fields attrs2) = set (declared_fields attrs)"
      by (rule mset_eq_setD)
    moreover from d have "inj_on (counter_key h) (set (declared_fields attrs))"
      by (simp add: distinct_map)
    ultimately have "inj_on (counter_key h) (set (declared_fields attrs2))" by simp
    with m have "sort_key (counter_key h) (declared_fields attrs2) =
                 sort_key (counter_key h) (declared_fields attrs)"
      by (rule sort_key_eq_sort_key)
    with bf bf2 show ?thesis by simp
  qed
  from bf show ?thesis using inv by (auto simp: sort_key_stable)
qed

lemmas registry_eval =
  DynamicFilterMetaClass_new_def default_name_def creation_counter_of_def OrderedDict_def
  counter_key_def Let_def

text \<open>
  C4 as stated fails.  The order of \<open>base_fields\<close> depends on the order of the declaring
  attributes: two instances of one field type share its form field, hence its creation
  counter, and come out in the order in which the class body lists them, \<open>a\<close>, \<open>b\<close> or
  \<open>b\<close>, \<open>a\<close>.  And it is not the order in which the field instances were constructed: in
  the third class body the instance \<open>a\<close> is constructed before the instance \<open>b\<close>, the form
  field of \<open>b\<close>'s type was built before that of \<open>a\<close>'s type, and \<open>b\<close> comes first.
\<close>

theorem base_fields_follow_attribute_order:
  "fst (DynamicFilterMetaClass_new one_type_heap ''F'' False
          [(''a'', FieldAttr (plain_field 0)), (''b'', FieldAttr (plain_field 0))]
          (ModelClass ''M'')) =
     Inr (Some \<lparr>fc_name = ''F'', base_fields = [(''a'', plain_field 0), (''b'', plain_field 0)],
                fc_model = ModelClass ''M''\<rparr>) \<and>
   fst (DynamicFilterMetaClass_new one_type_heap ''F'' False
          [(''b'', FieldAttr (plain_field 0)), (''a'', FieldAttr (plain_field 0))]
          (ModelClass ''M'')) =
     Inr (Some \<lparr>fc_name = ''F'', base_fields = [(''b'', plain_field 0), (''a'', plain_field 0)],
                fc_model = ModelClass ''M''\<rparr>) \<and>
   fst (DynamicFilterMetaClass_new two_type_heap ''F'' False
          [(''a'', FieldAttr (plain_field 0)), (''b'', FieldAttr (plain_field 1))]
          (ModelClass ''M'')) =
     Inr (Some \<lparr>fc_name = ''F'', base_fields = [(''b'', plain_field 1), (''a'', plain_field 0)],
                fc_model = ModelClass ''M''\<rparr>)"
  by (simp add: registry_eval)

text \<open>C4, amended, on two field types whose form fields were built in the order \<open>b\<close>,
  \<open>a\<close>: both attribute orders give \<open>b\<close>, \<open>a\<close>.\<close>

theorem base_fields_order_witness:
  "fst (DynamicFilterMetaClass_new two_type_heap ''F'' False
          [(''a'', FieldAttr (plain_field 0)), (''Meta'', OtherAttr),
           (''b'', FieldAttr (plain_field 1))] (ModelClass ''M'')) =
     Inr (Some \<lparr>fc_name = ''F'', base_fields = [(''b'', plain_field 1), (''a'', plain_field 0)],
                fc_model = ModelClass ''M''\<rparr>) \<and>
   fst (DynamicFilterMetaClass_new two_type_heap ''F'' False
          [(''b'', FieldAttr (plain_field 1)), (''Meta'', OtherAttr),
           (''a'', FieldAttr (plain_field 0))] (ModelClass ''M'')) =
     Inr (Some \<lparr>fc_name = ''F'', base_fields = [(''b'', plain_field 1), (''a'', plain_field 0)],
                fc_model = ModelClass ''M''\<rparr>) \<and>
   sorted (map (counter_key two_type_heap) [(''b'', plain_field 1), (''a'', plain_field 0)]) \<and>
   map (counter_key two_type_heap) [(''b'', plain_field 1), (''a'', plain_field 0)] = [1, 3]"
proof -
  let ?A = "[(''a'', FieldAttr (plain_field 0)), (''Meta'', OtherAttr),
             (''b'', FieldAttr (plain_field 1))]"
  let ?A2 = "[(''b'', FieldAttr (plain_field 1)), (''Meta'', OtherAttr),
              (''a'', FieldAttr (plain_field 0))]"
  let ?flt = "\<lparr>fc_name = ''F'', base_fields = [(''b'', plain_field 1), (''a'', plain_field 0)],
                fc_model = ModelClass ''M''\<rparr>"
  have r1: "fst (DynamicFilterMetaClass_new two_type_heap ''F'' False ?A (ModelClass ''M'')) =
              Inr (Some ?flt)"
    by (simp add: registry_eval)
  then obtain h1 where n1: "DynamicFilterMetaClass_new two_type_heap ''F'' False ?A
      (ModelClass ''M'') = (Inr (Some ?flt), h1)"
    by (metis prod.collapse)
  obtain r2 h2 where n2: "DynamicFilterMetaClass_new two_type_heap ''F'' False ?A2
      (ModelClass ''M'') = (r2, h2)"
    by (metis prod.collapse)
  have "\<exists>flt2. r2 = Inr (Some flt2)"
    using n2 [THEN arg_cong, of fst] by (auto simp: registry_eval)
  then obtain flt2 where n2': "DynamicFilterMetaClass_new two_type_heap ''F'' False ?A2
      (ModelClass ''M'') = (Inr (Some flt2), h2)"
    using n2 by auto
  have d: "distinct (map fst ?A)" by simp
  have m: "mset ?A2 = mset ?A" by (simp add: add_mset_commute)
  have dc: "distinct (map (counter_key two_type_heap) (declared_fields ?A))"
    by (simp add: counter_key_def creation_counter_of_def)
  from base_fields_order [OF n1 d] m dc n2'
  have "base_fields flt2 = base_fields ?flt" and
    "sorted (map (counter_key two_type_heap) (base_fields ?flt))"
    by blast+
  moreover have "fst (DynamicFilterMetaClass_new two_type_heap ''F'' False ?A2 (ModelClass ''M'')) =
              Inr (Some ?flt)"
    by (simp add: registry_eval)
  moreover have "map (counter_key two_type_heap) [(''b'', plain_field 1), (''a'', plain_field 0)] = [1, 3]"
    by (simp add: counter_key_def creation_counter_of_def)
  ultimately show ?thesis using r1 by simp
qed

text \<open>C10 on a field declared as \<open>status\<close> on a first filter type and as \<open>state\<close> on a
  second: its name stays \<open>status\<close>.\<close>

theorem registration_name_sticks_witness:
  "\<exists>h1 h2 r1.
     DynamicFilterMetaClass_new one_type_heap ''First'' False
       [(''Meta'', OtherAttr), (''status'', FieldAttr (plain_field 0))] (ModelClass ''M'') = (r1, h1) \<and>
     DynamicFilterMetaClass_new h1 ''Second'' False
       [(''state'', FieldAttr (plain_field 0))] (ModelClass ''M'') =
       (Inr (Some \<lparr>fc_name = ''Second'', base_fields = [(''state'', plain_field 0)],
                   fc_model = ModelClass ''M''\<rparr>), h2) \<and>
     metas h1 0 = Some ((plain_opts 0)\<lparr>name := Some ''status''\<rparr>) \<and>
     metas h2 0 = Some ((plain_opts 0)\<lparr>name := Some ''status''\<rparr>)"
proof -
  let ?A1 = "[(''Meta'', OtherAttr), (''status'', FieldAttr (plain_field 0))]"
  let ?A2 = "[(''state'', FieldAttr (plain_field 0))]"
  let ?h1 = "\<lparr>metas = [0 \<mapsto> (plain_opts 0)\<lparr>name := Some ''status''\<rparr>], forms = [0 \<mapsto> char_form 3]\<rparr>"
  let ?r1 = "Inr (Some \<lparr>fc_name = ''First'', base_fields = [(''status'', plain_field 0)],
                   fc_model = ModelClass ''M''\<rparr>)"
  let ?r2 = "Inr (Some \<lparr>fc_name = ''Second'', base_fields = [(''state'', plain_field 0)],
                   fc_model = ModelClass ''M''\<rparr>)"
  have n1: "DynamicFilterMetaClass_new one_type_heap ''First'' False
       ([(''Meta'', OtherAttr)] @ (''status'', FieldAttr (plain_field 0)) # []) (ModelClass ''M'') = (?r1, ?h1)"
    by (simp add: registry_eval)
  have n2: "DynamicFilterMetaClass_new ?h1 ''Second'' False ?A2 (ModelClass ''M'') = (?r2, ?h1)"
    by (simp add: registry_eval)
  have p3: "metas one_type_heap (meta_ref (plain_field 0)) = Some (plain_opts 0)" by simp
  have p4: "\<not> str_truthy (name (plain_opts 0))" by simp
  have p5: "''status'' \<noteq> []" by simp
  have p6: "\<forall>(k, a)\<in>set [(''Meta'', OtherAttr)]. \<forall>g. a = FieldAttr g \<longrightarrow>
           meta_ref g \<noteq> meta_ref (plain_field 0) \<and> metas one_type_heap (meta_ref g) \<noteq> None"
    by simp
  have p7: "(''state'', FieldAttr (plain_field 0)) \<in> set ?A2" by simp
  have p8: "distinct (map fst ?A2)" by simp
  note registration_name_sticks [OF n1 n2 p3 p4 p5 p6 p7 p8]
  with n1 n2 show ?thesis by (intro exI [of _ ?h1] exI [of _ ?r1]) simp
qed

section \<open>Properties of filter instances\<close>


lemma get_value_no_init:
  "snd (get_value self nm dflt False) = self"
proof (cases "unstore_value self nm")
  case (Inl e)
  then show ?thesis by (cases e) (simp_all add: get_value_def)
next
  case (Inr v)
  then show ?thesis by (simp add: get_value_def)
qed

lemma render_kwargs_loop_state:
  "snd (render_kwargs_loop self fs kwargs) = self"
proof (induction fs arbitrary: kwargs)
  case Nil
  then show ?case by simp
next
  case (Cons a fs)
  obtain nm f where a: "a = (nm, f)" by (cases a)
  obtain r self1 where g: "get_value self nm PNone False = (r, self1)"
    by (cases "get_value self nm PNone False")
  with get_value_no_init [of self nm PNone] have s1: "self1 = self" by simp
  show ?case
  proof (cases r)
    case (Inl e)
    with a g s1 show ?thesis by simp
  next
    case (Inr v)
    show ?thesis
    proof (cases "metas (own self) (meta_ref f)")
      case None
      with a g s1 Inr show ?thesis by simp
    next
      case (Some opts)
      with a g s1 Inr Cons.IH show ?thesis by simp
    qed
  qed
qed

text \<open>
  C8.  \<open>render_query_kwargs\<close> leaves the instance as it found it, its \<open>values\<close> in
  particular, whether it returns or raises: \<open>get_value\<close> without \<open>init\<close> never writes.
\<close>

theorem render_query_kwargs_keeps_values:
  "snd (render_query_kwargs self) = self \<and>
   values' (snd (render_query_kwargs self)) = values' self"
  by (simp add: render_query_kwargs_def render_kwargs_loop_state)

lemma render_kwargs_loop_entries:
  "render_kwargs_loop self fs kw0 = (Inr kw, s) \<Longrightarrow>
     \<exists>es. map (field_entry self) fs = map Inr es \<and>
          kw = fold (\<lambda>(k, v). AList.update k v) (written es) kw0"
proof (induction fs arbitrary: kw0)
  case Nil
  then show ?case by simp
next
  case (Cons a fs)
  obtain nm f where a: "a = (nm, f)" by (cases a)
  obtain r self1 where g: "get_value self nm PNone False = (r, self1)"
    by (cases "get_value self nm PNone False")
  with get_value_no_init [of self nm PNone] have s1: "self1 = self" by simp
  from Cons.prems a g obtain v where r: "r = Inr v" by (cases r) simp_all
  from Cons.prems a g r s1 obtain opts where m: "metas (own self) (meta_ref f) = Some opts"
    by (cases "metas (own self) (meta_ref f)") simp_all
  let ?inc = "truthy (render_value v) \<or> force_empty opts"
  let ?kw1 = "if ?inc then AList.update (render_operator opts) (render_value v) kw0 else kw0"
  from Cons.prems a g r s1 m have "render_kwargs_loop self fs ?kw1 = (Inr kw, s)"
    by (cases "truthy (render_value v) \<or> force_empty opts") auto
  from Cons.IH [OF this] obtain es where es: "map (field_entry self) fs = map Inr es"
    "kw = fold (\<lambda>(k, v). AList.update k v) (written es) ?kw1" by blast
  have fe: "field_entry self a = Inr (render_operator opts, render_value v, ?inc)"
    using a g r m by (simp add: field_entry_def)
  show ?case
  proof (intro exI [of _ "(render_operator opts, render_value v, ?inc) # es"] conjI)
    show "map (field_entry self) (a # fs) = map Inr ((render_operator opts, render_value v, ?inc) # es)"
      using fe es(1) by simp
    show "kw = fold (\<lambda>(k, v). AList.update k v)
                 (written ((render_operator opts, render_value v, ?inc) # es)) kw0"
      using es(2) by (cases ?inc) simp_all
  qed
qed

lemma map_of_fold_update:
  "map_of (fold (\<lambda>(k, v). AList.update k v) xs kw0) = map_of kw0 ++ map_of (rev xs)"
proof (induction xs arbitrary: kw0)
  case Nil
  then show ?case by simp
next
  case (Cons a xs)
  obtain k v where a: "a = (k, v)" by (cases a)
  have "map_of (fold (\<lambda>(k, v). AList.update k v) (a # xs) kw0) =
        map_of (AList.update k v kw0) ++ map_of (rev xs)"
    using Cons.IH [of "AList.update k v kw0"] a by simp
  also have "\<dots> = (map_of kw0)(k \<mapsto> v) ++ map_of (rev xs)"
    by (simp add: update_conv')
  also have "\<dots> = map_of kw0 ++ map_of (rev (a # xs))"
    using a by (simp add: map_add_def fun_eq_iff split: option.splits)
  finally show ?case .
qed

lemma map_of_rev_unique:
  assumes "\<forall>(k', v')\<in>set xs. k' = k \<longrightarrow> v' = v"
  shows "map_of (rev xs) k = (if k \<in> fst ` set xs then Some v else None)"
proof (cases "map_of (rev xs) k")
  case None
  then have "k \<notin> fst ` set xs" by (simp add: map_of_eq_None_iff)
  with None show ?thesis by simp
next
  case (Some w)
  then have "(k, w) \<in> set xs" using map_of_SomeD [of "rev xs" k w] by simp
  with assms have "w = v" and "k \<in> fst ` set xs" by force+
  with Some show ?thesis by simp
qed

lemma written_set: "(k, v) \<in> set (written es) \<longleftrightarrow> (k, v, True) \<in> set es"
  by (induction es rule: written.induct) auto

lemma fold_update_nonempty:
  "acc \<noteq> [] \<Longrightarrow> fold (\<lambda>(k, v). AList.update k v) xs acc \<noteq> []"
proof (induction xs arbitrary: acc)
  case Nil
  then show ?case by simp
next
  case (Cons a xs)
  obtain k v where a: "a = (k, v)" by (cases a)
  have "AList.update k v acc \<noteq> []" by simp
  from Cons.IH [OF this] a show ?case by simp
qed

lemma fold_update_empty_iff:
  "fold (\<lambda>(k, v). AList.update k v) xs [] = [] \<longleftrightarrow> xs = []"
proof (cases xs)
  case Nil
  then show ?thesis by simp
next
  case (Cons a ys)
  obtain k v where a: "a = (k, v)" by (cases a)
  have "AList.update k v [] \<noteq> []" by simp
  from fold_update_nonempty [OF this, of ys] Cons a show ?thesis by simp
qed

lemma render_query_kwargs_single:
  assumes "fields' self = [(nm, f)]" and "metas (own self) (meta_ref f) = Some opts"
    and "unstore_value self nm = Inr (PStr [])"
  shows "render_query_kwargs self =
           (Inr (if force_empty opts then [(render_operator opts, PStr [])] else []), self)"
    and "is_active self = (Inr (force_empty opts), self)"
proof -
  from assms(3) have g: "get_value self nm PNone False = (Inr (PStr []), self)"
    by (simp add: get_value_def)
  with assms(1,2) show r: "render_query_kwargs self =
           (Inr (if force_empty opts then [(render_operator opts, PStr [])] else []), self)"
    by (simp add: render_query_kwargs_def render_value_def)
  then show "is_active self = (Inr (force_empty opts), self)"
    by (simp add: is_active_def)
qed

text \<open>
  C5, amended.  When \<open>render_query_kwargs\<close> returns, every field has an entry (key, value,
  written or not), and \<open>kwargs\<close> maps a key to the value of the last field, in declaration
  order, that writes it; so for a field whose key no other field renders, \<open>kwargs\<close> maps
  the key to the field's value if and only if the value is true or \<open>force_empty\<close> is set,
  and \<open>is_active\<close> tells whether any field writes.  In particular, for a single field
  whose value is the empty string, \<open>kwargs\<close> is empty and \<open>is_active\<close> false without
  \<open>force_empty\<close>, and with \<open>force_empty\<close> \<open>kwargs\<close> maps the field's key to the empty string
  and \<open>is_active\<close> is true.
\<close>

theorem render_query_kwargs_entries:
  "(render_query_kwargs self = (Inr kw, s) \<longrightarrow>
      (\<exists>es. map (field_entry self) (fields' self) = map Inr es \<and>
         (\<forall>k. map_of kw k = map_of (rev (written es)) k) \<and>
         (\<forall>(k, v, inc)\<in>set es.
            (\<forall>(k', v', inc')\<in>set es. k' = k \<longrightarrow> v' = v \<and> inc' = inc) \<longrightarrow>
            (map_of kw k = Some v \<longleftrightarrow> inc)) \<and>
         is_active self = (Inr (written es \<noteq> []), self))) \<and>
   (fields' self = [(nm, f)] \<and> metas (own self) (meta_ref f) = Some opts \<and>
    unstore_value self nm = Inr (PStr []) \<longrightarrow>
      render_query_kwargs self =
        (Inr (if force_empty opts then [(render_operator opts, PStr [])] else []), self) \<and>
      is_active self = (Inr (force_empty opts), self))"
proof (intro conjI impI)
  assume r: "render_query_kwargs self = (Inr kw, s)"
  then have "render_kwargs_loop self (fields' self) [] = (Inr kw, s)"
    by (simp add: render_query_kwargs_def)
  from render_kwargs_loop_entries [OF this] obtain es
    where es: "map (field_entry self) (fields' self) = map Inr es"
      and kw: "kw = fold (\<lambda>(k, v). AList.update k v) (written es) []" by blast
  have last_wins: "map_of kw k = map_of (rev (written es)) k" for k
    using kw by (simp add: map_of_fold_update)
  have uniq: "map_of kw k = Some v \<longleftrightarrow> inc"
    if mem: "(k, v, inc) \<in> set es"
      and u: "\<forall>(k', v', inc')\<in>set es. k' = k \<longrightarrow> v' = v \<and> inc' = inc" for k v inc
  proof -
    have "\<forall>(k', v')\<in>set (written es). k' = k \<longrightarrow> v' = v"
      using u by (auto simp: written_set)
    from map_of_rev_unique [OF this] last_wins
    have "map_of kw k = (if k \<in> fst ` set (written es) then Some v else None)" by simp
    moreover have "k \<in> fst ` set (written es) \<longleftrightarrow> inc"
    proof
      assume "k \<in> fst ` set (written es)"
      then obtain v' where "(k, v', True) \<in> set es" by (auto simp: written_set)
      with u show inc by auto
    next
      assume inc
      with mem have "(k, v) \<in> set (written es)" by (simp add: written_set)
      then show "k \<in> fst ` set (written es)" by force
    qed
    ultimately show ?thesis by simp
  qed
  from r have "s = self"
    using render_kwargs_loop_state [of self "fields' self" "[]"]
    by (simp add: render_query_kwargs_def)
  with r kw have act: "is_active self = (Inr (written es \<noteq> []), self)"
    by (simp add: is_active_def fold_update_empty_iff)
  show "\<exists>es. map (field_entry self) (fields' self) = map Inr es \<and>
         (\<forall>k. map_of kw k = map_of (rev (written es)) k) \<and>
         (\<forall>(k, v, inc)\<in>set es.
            (\<forall>(k', v', inc')\<in>set es. k' = k \<longrightarrow> v' = v \<and> inc' = inc) \<longrightarrow>
            (map_of kw k = Some v \<longleftrightarrow> inc)) \<and>
         is_active self = (Inr (written es \<noteq> []), self)"
    using es last_wins uniq act by (intro exI [of _ es]) blast
next
  assume a: "fields' self = [(nm, f)] \<and> metas (own self) (meta_ref f) = Some opts \<and>
    unstore_value self nm = Inr (PStr [])"
  then show "render_query_kwargs self =
        (Inr (if force_empty opts then [(render_operator opts, PStr [])] else []), self)"
    using render_query_kwargs_single(1) [of self nm f opts] by simp
  from a show "is_active self = (Inr (force_empty opts), self)"
    using render_query_kwargs_single(2) [of self nm f opts] by simp
qed

lemmas instance_eval =
  BaseDynamicFilter_init_def resolve_state_def session_get_def deepcopy_fields_def get_value_def
  unstore_value_def set_value_def initial_of_def form_fields_of_def Let_def
  render_query_kwargs_def is_active_def render_value_def render_operator_def field_entry_def

text \<open>
  C5 as stated (an entry key \<open>\<rightarrow>\<close> value for every field whose value is true) fails where
  two fields render one key: the fields \<open>a\<close> and \<open>b\<close> are two instances of one field type
  and share its name \<open>a\<close>; the value \<open>x\<close> of \<open>a\<close> is true, and \<open>kwargs\<close> maps the key \<open>a\<close>
  to the value \<open>y\<close> of \<open>b\<close>.
\<close>

theorem later_field_overwrites_key:
  "BaseDynamicFilter_init reject_all twin_filter twin_heap twin_request =
     Inr (twin_instance, twin_request\<lparr>modified := True\<rparr>) \<and>
   field_entry twin_instance (''a'', plain_field 0) = Inr (PStr ''a'', PStr ''x'', True) \<and>
   render_query_kwargs twin_instance = (Inr [(PStr ''a'', PStr ''y'')], twin_instance)"
  by (simp add: instance_eval)

text \<open>C5, amended, on a single field \<open>status\<close> whose value is the empty string, without
  and with \<open>force_empty\<close>.\<close>

theorem render_query_kwargs_entries_witness:
  "render_query_kwargs (status_instance False) = (Inr [], status_instance False) \<and>
   is_active (status_instance False) = (Inr False, status_instance False) \<and>
   render_query_kwargs (status_instance True) =
     (Inr [(PStr ''status'', PStr [])], status_instance True) \<and>
   is_active (status_instance True) = (Inr True, status_instance True) \<and>
   (\<exists>es. map (field_entry (status_instance True)) (fields' (status_instance True)) = map Inr es \<and>
      map_of [(PStr ''status'', PStr [])] (PStr ''status'') =
        map_of (rev (written es)) (PStr ''status''))"
proof -
  have p: "fields' (status_instance fe) = [(''status'', plain_field 0)] \<and>
      metas (own (status_instance fe)) (meta_ref (plain_field 0)) =
        Some (named_opts 0 ''status'' fe) \<and>
      unstore_value (status_instance fe) ''status'' = Inr (PStr [])" for fe
    by (simp add: unstore_value_def)
  have r: "render_query_kwargs (status_instance True) =
     (Inr [(PStr ''status'', PStr [])], status_instance True)"
    by (simp add: instance_eval)
  note t = render_query_kwargs_entries [of "status_instance True" "[(PStr ''status'', PStr [])]"
      "status_instance True" "''status''" "plain_field 0" "named_opts 0 ''status'' True"]
    and f = render_query_kwargs_entries [of "status_instance False" "[]"
      "status_instance False" "''status''" "plain_field 0" "named_opts 0 ''status'' False"]
  note t2 = t [THEN conjunct2, THEN mp, OF p]
    and f2 = f [THEN conjunct2, THEN mp, OF p]
  from t [THEN conjunct1, THEN mp, OF r]
  have t1: "\<exists>es. map (field_entry (status_instance True)) (fields' (status_instance True)) =
                map Inr es \<and>
      map_of [(PStr ''status'', PStr [])] (PStr ''status'') =
        map_of (rev (written es)) (PStr ''status'')"
    by blast
  have "render_operator (named_opts 0 ''status'' True) = PStr ''status''"
    by (simp add: render_operator_def)
  with t2 f2 have
    "render_query_kwargs (status_instance False) = (Inr [], status_instance False)"
    "is_active (status_instance False) = (Inr False, status_instance False)"
    "render_query_kwargs (status_instance True) =
       (Inr [(PStr ''status'', PStr [])], status_instance True)"
    "is_active (status_instance True) = (Inr True, status_instance True)"
    by simp_all
  with t1 show ?thesis by blast
qed

section \<open>Properties of the constructor\<close>

lemma qs_get_not_KeyError: "qs_get rows v \<noteq> Inl (KeyError k)"
  by (simp add: qs_get_def split: list.splits)

lemma unstore_not_KeyError: "unstore mo kd v \<noteq> Inl (KeyError k)"
proof (cases kd)
  case PlainField
  then show ?thesis by simp
next
  case ModelFieldKind
  show ?thesis
  proof (cases mo)
    case None
    with ModelFieldKind show ?thesis by simp
  next
    case (Some opts)
    with ModelFieldKind show ?thesis
      by (cases "queryset opts") (simp_all add: qs_get_not_KeyError)
  qed
qed

lemma get_value_present:
  assumes "map_of (fields' self) nm = Some f" and "values' self nm = Some sv"
  shows "get_value self nm d i = (unstore (metas (own self) (meta_ref f)) (kind f) sv, self)"
proof -
  let ?u = "unstore (metas (own self) (meta_ref f)) (kind f) sv"
  from assms have u: "unstore_value self nm = ?u" by (simp add: unstore_value_def)
  show ?thesis
  proof (cases ?u)
    case (Inr v)
    with u show ?thesis by (simp add: get_value_def)
  next
    case (Inl e)
    with unstore_not_KeyError [of "metas (own self) (meta_ref f)" "kind f" sv]
    have "\<forall>k. e \<noteq> KeyError k" by auto
    with u Inl show ?thesis by (cases e) (simp_all add: get_value_def)
  qed
qed

lemma get_value_absent:
  assumes "map_of (fields' self) nm = Some f" and "values' self nm = None"
  shows "get_value self nm d True =
           (case store (kind f) d of
              Inl e \<Rightarrow> (Inl e, self)
            | Inr sv \<Rightarrow> (Inr d, self\<lparr>values' := (values' self)(nm \<mapsto> sv)\<rparr>))"
proof -
  from assms have "unstore_value self nm = Inl (KeyError nm)" by (simp add: unstore_value_def)
  with assms(1) show ?thesis
    by (cases "store (kind f) d") (simp_all add: get_value_def set_value_def)
qed

lemma get_value_no_field:
  assumes "map_of (fields' self) nm = None"
  shows "get_value self nm d True = (Inl (KeyError nm), self)"
proof -
  from assms have "unstore_value self nm = Inl (KeyError nm)" by (simp add: unstore_value_def)
  with assms show ?thesis by (simp add: get_value_def set_value_def)
qed

text \<open>What a pass with \<open>init=True\<close> that returns has done to the instance.\<close>

lemma get_value_init:
  assumes "get_value self nm d True = (Inr v, self1)"
  shows "(values' self nm \<noteq> None \<and> self1 = self) \<or>
         (values' self nm = None \<and>
          (\<exists>f sv. map_of (fields' self) nm = Some f \<and> store (kind f) d = Inr sv \<and> v = d \<and>
                  self1 = self\<lparr>values' := (values' self)(nm \<mapsto> sv)\<rparr>))"
proof (cases "map_of (fields' self) nm")
  case None
  with assms get_value_no_field [OF None, of d] show ?thesis by simp
next
  case (Some f)
  show ?thesis
  proof (cases "values' self nm")
    case None
    with assms get_value_absent [OF Some None, of d] Some show ?thesis
      by (cases "store (kind f) d") auto
  next
    case (Some sv)
    with assms get_value_present [OF \<open>map_of (fields' self) nm = Some f\<close> Some, of d True]
    show ?thesis by simp
  qed
qed

lemma materialize_ConsE:
  assumes "materialize self ((nm, f) # rest) = (Inr ffs, s)"
  obtains opts v self1 r ff ffs' where "metas (own self) (meta_ref f) = Some opts"
    and "get_value self nm (initial_of (own self) opts) True = (Inr v, self1)"
    and "field opts = FormFieldObj r" and "forms (own self1) r = Some ff"
    and "materialize (self1\<lparr>own := (own self1)\<lparr>forms := (forms (own self1))
            (r \<mapsto> ff\<lparr>initial := v, required := False\<rparr>)\<rparr>\<rparr>) rest = (Inr ffs', s)"
    and "ffs = (nm, r) # ffs'"
proof (cases "metas (own self) (meta_ref f)")
  case None
  with assms show ?thesis by simp
next
  case (Some opts)
  obtain g self1 where g: "get_value self nm (initial_of (own self) opts) True = (g, self1)"
    by (cases "get_value self nm (initial_of (own self) opts) True")
  show ?thesis
  proof (cases g)
    case (Inl e)
    with assms Some g show ?thesis by simp
  next
    case (Inr v)
    show ?thesis
    proof (cases "field opts")
      case NoneObj
      with assms Some g Inr show ?thesis by simp
    next
      case (OtherObj b n)
      with assms Some g Inr show ?thesis by simp
    next
      case (FormFieldObj r)
      show ?thesis
      proof (cases "forms (own self1) r")
        case None
        with assms Some g Inr FormFieldObj show ?thesis by simp
      next
        case (Some ff)
        let ?self2 = "self1\<lparr>own := (own self1)\<lparr>forms := (forms (own self1))
            (r \<mapsto> ff\<lparr>initial := v, required := False\<rparr>)\<rparr>\<rparr>"
        obtain m s2 where m: "materialize ?self2 rest = (m, s2)"
          by (cases "materialize ?self2 rest")
        from assms \<open>metas (own self) (meta_ref f) = Some opts\<close> g Inr FormFieldObj Some m
        obtain ffs' where "m = Inr ffs'" and "s2 = s" and "ffs = (nm, r) # ffs'"
          by (cases m) auto
        with m \<open>metas (own self) (meta_ref f) = Some opts\<close> g Inr FormFieldObj Some
        show ?thesis by (intro that [of opts v self1 r ff ffs']) simp_all
      qed
    qed
  qed
qed

lemma same_frame_refl: "same_frame a a"
  by (simp add: same_frame_def)

lemma same_frame_trans: "same_frame a b \<Longrightarrow> same_frame b c \<Longrightarrow> same_frame a c"
  by (simp add: same_frame_def)

lemma get_value_init_frame:
  assumes "get_value self nm d True = (Inr v, self1)"
  shows "same_frame self self1 \<and> own self1 = own self \<and> form self1 = form self \<and>
         values' self \<subseteq>\<^sub>m values' self1 \<and>
         dom (values' self1) = insert nm (dom (values' self))"
  using get_value_init [OF assms]
proof
  assume "values' self nm \<noteq> None \<and> self1 = self"
  then show ?thesis by (auto simp: same_frame_refl)
next
  assume "values' self nm = None \<and>
          (\<exists>f sv. map_of (fields' self) nm = Some f \<and> store (kind f) d = Inr sv \<and> v = d \<and>
                  self1 = self\<lparr>values' := (values' self)(nm \<mapsto> sv)\<rparr>)"
  then obtain sv where n: "values' self nm = None"
    and s: "self1 = self\<lparr>values' := (values' self)(nm \<mapsto> sv)\<rparr>" by blast
  from n have "values' self \<subseteq>\<^sub>m (values' self)(nm \<mapsto> sv)"
    by (auto simp: map_le_def dom_def)
  with s show ?thesis by (simp add: same_frame_def)
qed

lemma materialize_frame:
  "materialize self fs = (Inr ffs, s) \<Longrightarrow>
     same_frame self s \<and> form s = form self \<and> values' self \<subseteq>\<^sub>m values' s \<and>
     dom (values' s) = dom (values' self) \<union> fst ` set fs \<and> map fst ffs = map fst fs"
proof (induction fs arbitrary: self ffs)
  case Nil
  then show ?case by (simp add: same_frame_refl)
next
  case (Cons a fs)
  obtain nm f where a: "a = (nm, f)" by (cases a)
  from Cons.prems a have "materialize self ((nm, f) # fs) = (Inr ffs, s)" by simp
  then obtain opts v self1 r ff ffs'
    where g: "get_value self nm (initial_of (own self) opts) True = (Inr v, self1)"
      and m: "materialize (self1\<lparr>own := (own self1)\<lparr>forms := (forms (own self1))
            (r \<mapsto> ff\<lparr>initial := v, required := False\<rparr>)\<rparr>\<rparr>) fs = (Inr ffs', s)"
      and ffs: "ffs = (nm, r) # ffs'"
    by (rule materialize_ConsE)
  let ?self2 = "self1\<lparr>own := (own self1)\<lparr>forms := (forms (own self1))
            (r \<mapsto> ff\<lparr>initial := v, required := False\<rparr>)\<rparr>\<rparr>"
  from get_value_init_frame [OF g]
  have g1: "same_frame self self1" and g2: "form self1 = form self"
    and g3: "values' self \<subseteq>\<^sub>m values' self1"
    and g4: "dom (values' self1) = insert nm (dom (values' self))"
    by blast+
  have f2: "same_frame self1 ?self2" by (simp add: same_frame_def)
  have v2: "values' ?self2 = values' self1" and o2: "form ?self2 = form self1" by simp_all
  from Cons.IH [OF m]
  have i1: "same_frame ?self2 s" and i2: "form s = form ?self2"
    and i3: "values' ?self2 \<subseteq>\<^sub>m values' s"
    and i4: "dom (values' s) = dom (values' ?self2) \<union> fst ` set fs"
    and i5: "map fst ffs' = map fst fs"
    by blast+
  have "same_frame self s"
    by (rule same_frame_trans [OF g1 same_frame_trans [OF f2 i1]])
  moreover have "form s = form self" using i2 o2 g2 by (rule trans [OF trans])
  moreover have "values' self \<subseteq>\<^sub>m values' s"
    using g3 i3 unfolding v2 by (rule map_le_trans)
  moreover have "dom (values' s) = dom (values' self) \<union> fst ` set (a # fs)"
    unfolding i4 v2 g4 a by auto
  moreover have "map fst ffs = map fst (a # fs)" using i5 ffs a by simp
  ultimately show ?case by blast
qed

lemma set_value_frame:
  assumes "set_value self nm v = (r, s)"
  shows "same_frame self s \<and> own s = own self \<and> form s = form self"
proof (cases "map_of (fields' self) nm")
  case None
  with assms have "s = self" by (simp add: set_value_def)
  then show ?thesis by (simp add: same_frame_refl)
next
  case (Some f)
  show ?thesis
  proof (cases "store (kind f) v")
    case (Inl e)
    with assms Some have "s = self" by (simp add: set_value_def)
    then show ?thesis by (simp add: same_frame_refl)
  next
    case (Inr sv)
    with assms Some have "s = self\<lparr>values' := (values' self)(nm \<mapsto> sv)\<rparr>"
      by (simp add: set_value_def)
    then show ?thesis by (simp add: same_frame_def)
  qed
qed

lemma set_values_frame:
  "set_values self items = (r, s) \<Longrightarrow> same_frame self s \<and> own s = own self \<and> form s = form self"
proof (induction items arbitrary: self)
  case Nil
  then show ?case by (simp add: same_frame_refl)
next
  case (Cons a items)
  obtain nm v where a: "a = (nm, v)" by (cases a)
  obtain r1 s1 where s1: "set_value self nm v = (r1, s1)" by (cases "set_value self nm v")
  note f1 = set_value_frame [OF s1]
  show ?case
  proof (cases r1)
    case (Inl e)
    with Cons.prems a s1 f1 show ?thesis by simp
  next
    case (Inr u)
    with Cons.prems a s1 have "set_values s1 items = (r, s)" by simp
    from Cons.IH [OF this] f1 show ?thesis by (auto intro: same_frame_trans)
  qed
qed

text \<open>The stages of a construction that returns.\<close>

lemma BaseDynamicFilter_init_InrE:
  assumes "BaseDynamicFilter_init clean flt h req = Inr (self, req')"
  obtains fi ir vs req1 ffs self1 where
    "resolve_state (fc_name flt) req = (fi, ir, vs, req1)"
    and "deepcopy_fields h (base_fields flt) = Inr (base_fields flt, h)"
    and "materialize \<lparr>filter_type = flt, first_init = fi, is_reset = ir, values' = vs,
           fields' = base_fields flt, own = h, form = UnboundForm []\<rparr> (base_fields flt) =
         (Inr ffs, self1)"
    and "(if http_method req1 = ''POST'' \<and> \<not> ir
          then (let cleaned = clean (form_fields_of (own self1) ffs) (POST req1);
                    self2 = self1\<lparr>form := BoundForm ffs (POST req1) cleaned\<rparr>
                in case cleaned of None \<Rightarrow> (Inr (), self2) | Some items \<Rightarrow> set_values self2 items)
          else (Inr (), self1\<lparr>form := UnboundForm ffs\<rparr>)) = (Inr (), self)"
    and "req' = req1\<lparr>session := (session req1)(fc_name flt \<mapsto> values' self), modified := True\<rparr>"
proof -
  obtain fi ir vs req1 where rs: "resolve_state (fc_name flt) req = (fi, ir, vs, req1)"
    by (cases "resolve_state (fc_name flt) req")
  show ?thesis
  proof (cases "deepcopy_fields h (base_fields flt)")
    case (Inl e)
    with assms rs show ?thesis by (simp add: BaseDynamicFilter_init_def)
  next
    case (Inr p)
    then have p: "p = (base_fields flt, h)"
      by (simp add: deepcopy_fields_def split: if_splits)
    let ?self0 = "\<lparr>filter_type = flt, first_init = fi, is_reset = ir, values' = vs,
           fields' = base_fields flt, own = h, form = UnboundForm []\<rparr>"
    obtain m self1 where m: "materialize ?self0 (base_fields flt) = (m, self1)"
      by (cases "materialize ?self0 (base_fields flt)")
    show ?thesis
    proof (cases m)
      case (Inl e)
      with assms rs Inr p m show ?thesis by (simp add: BaseDynamicFilter_init_def)
    next
      case (Inr ffs)
      let ?sub = "(if http_method req1 = ''POST'' \<and> \<not> ir
          then (let cleaned = clean (form_fields_of (own self1) ffs) (POST req1);
                    self2 = self1\<lparr>form := BoundForm ffs (POST req1) cleaned\<rparr>
                in case cleaned of None \<Rightarrow> (Inr (), self2) | Some items \<Rightarrow> set_values self2 items)
          else (Inr (), self1\<lparr>form := UnboundForm ffs\<rparr>))"
      obtain u self3 where sub: "?sub = (u, self3)" by (cases ?sub)
      from assms rs \<open>deepcopy_fields h (base_fields flt) = Inr p\<close> p m Inr
      have res: "(case ?sub of
                   (Inl e, self3) \<Rightarrow> Inl e
                 | (Inr u, self3) \<Rightarrow>
                     Inr (self3, req1\<lparr>session := (session req1)(fc_name flt \<mapsto> values' self3),
                                      modified := True\<rparr>)) = Inr (self, req')"
        by (simp add: BaseDynamicFilter_init_def)
      have "u = Inr () \<and> self3 = self \<and>
            req' = req1\<lparr>session := (session req1)(fc_name flt \<mapsto> values' self), modified := True\<rparr>"
        using res unfolding sub by (cases u) auto
      with sub rs \<open>deepcopy_fields h (base_fields flt) = Inr p\<close> p m Inr show ?thesis
        by (intro that [of fi ir vs req1 ffs self1]) simp_all
    qed
  qed
qed

lemma resolve_state_facts:
  assumes "resolve_state nm req = (fi, ir, vs, req1)"
  shows "fi = (session req nm = None)" and "ir = (GET req ''reset_filter'' = Some nm)"
    and "http_method req1 = http_method req" and "POST req1 = POST req"
    and "\<not> ir \<Longrightarrow> vs = session_get req nm \<and> req1 = req"
    and "fi \<Longrightarrow> vs = Map.empty \<and> req1 = req"
  using assms by (auto simp: resolve_state_def session_get_def Let_def split: if_splits)

lemma map_le_same_dom: "f \<subseteq>\<^sub>m g \<Longrightarrow> dom g \<subseteq> dom f \<Longrightarrow> g = f"
proof (rule map_le_antisym)
  assume le: "f \<subseteq>\<^sub>m g" and d: "dom g \<subseteq> dom f"
  show "g \<subseteq>\<^sub>m f"
    unfolding map_le_def
  proof
    fix a assume "a \<in> dom g"
    with d have "a \<in> dom f" by auto
    with le show "g a = f a" by (simp add: map_le_def)
  qed
  from le show "f \<subseteq>\<^sub>m g" .
qed

lemma materialize_ConsI:
  assumes "metas (own self) (meta_ref f) = Some opts"
    and "get_value self nm (initial_of (own self) opts) True = (Inr v, self1)"
    and "field opts = FormFieldObj r" and "forms (own self1) r = Some ff"
    and "materialize (self1\<lparr>own := (own self1)\<lparr>forms := (forms (own self1))
            (r \<mapsto> ff\<lparr>initial := v, required := False\<rparr>)\<rparr>\<rparr>) rest = (Inr ffs', s)"
  shows "materialize self ((nm, f) # rest) = (Inr ((nm, r) # ffs'), s)"
  using assms by simp

lemma declared_initial_SomeE:
  assumes "declared_initial h f = Some d"
  obtains opts r ff where "metas h (meta_ref f) = Some opts" and "field opts = FormFieldObj r"
    and "forms h r = Some ff" and "initial ff = d" and "initial_of h opts = d"
proof (cases "metas h (meta_ref f)")
  case None
  with assms show ?thesis by (simp add: declared_initial_def)
next
  case (Some opts)
  show ?thesis
  proof (cases "field opts")
    case NoneObj
    with assms Some show ?thesis by (simp add: declared_initial_def)
  next
    case (OtherObj b n)
    with assms Some show ?thesis by (simp add: declared_initial_def)
  next
    case (FormFieldObj r)
    with assms Some obtain ff where "forms h r = Some ff" and "initial ff = d"
      by (auto simp: declared_initial_def)
    with Some FormFieldObj show ?thesis
      by (intro that [of opts r ff]) (simp_all add: initial_of_def)
  qed
qed

lemma declared_initial_update:
  assumes "forms h r = Some ff" and "metas h2 = metas h"
    and "forms h2 = (forms h)(r \<mapsto> ff\<lparr>initial := initial ff, required := False\<rparr>)"
  shows "declared_initial h2 g = declared_initial h g"
proof (cases "metas h (meta_ref g)")
  case None
  with assms(2) show ?thesis by (simp add: declared_initial_def)
next
  case (Some opts)
  show ?thesis
  proof (cases "field opts")
    case NoneObj
    with assms(2) Some show ?thesis by (simp add: declared_initial_def)
  next
    case (OtherObj b n)
    with assms(2) Some show ?thesis by (simp add: declared_initial_def)
  next
    case (FormFieldObj r')
    with assms Some show ?thesis by (cases "r' = r") (simp_all add: declared_initial_def)
  qed
qed

lemma materialize_fresh:
  assumes "distinct (map fst fs)"
    and "\<forall>x\<in>set fs. values' self (fst x) = None"
    and "\<forall>x\<in>set fs. map_of (fields' self) (fst x) = Some (snd x)"
    and "\<forall>x\<in>set fs. \<exists>d sv. declared_initial (own self) (snd x) = Some d \<and>
                           store (kind (snd x)) d = Inr sv"
  shows "\<exists>ffs s. materialize self fs = (Inr ffs, s) \<and>
           (\<forall>x\<in>set fs. \<exists>d sv. declared_initial (own self) (snd x) = Some d \<and>
                           store (kind (snd x)) d = Inr sv \<and> values' s (fst x) = Some sv)"
  using assms
proof (induction fs arbitrary: self)
  case Nil
  then show ?case by simp
next
  case (Cons a fs)
  obtain nm f where a: "a = (nm, f)" by (cases a)
  from Cons.prems(4) a obtain d sv where d: "declared_initial (own self) f = Some d"
    and sv: "store (kind f) d = Inr sv" by auto
  from d obtain opts r ff where opts: "metas (own self) (meta_ref f) = Some opts"
    and fld: "field opts = FormFieldObj r" and ff: "forms (own self) r = Some ff"
    and ini: "initial ff = d" and io: "initial_of (own self) opts = d"
    by (rule declared_initial_SomeE)
  from Cons.prems(2,3) a have absent: "values' self nm = None"
    and fmap: "map_of (fields' self) nm = Some f" by simp_all
  let ?self1 = "self\<lparr>values' := (values' self)(nm \<mapsto> sv)\<rparr>"
  have g: "get_value self nm (initial_of (own self) opts) True = (Inr d, ?self1)"
    using get_value_absent [OF fmap absent, of d] sv io by simp
  let ?self2 = "?self1\<lparr>own := (own ?self1)\<lparr>forms := (forms (own ?self1))
            (r \<mapsto> ff\<lparr>initial := d, required := False\<rparr>)\<rparr>\<rparr>"
  have ff1: "forms (own ?self1) r = Some ff" using ff by simp
  have di: "declared_initial (own ?self2) g = declared_initial (own self) g" for g
    by (rule declared_initial_update [OF ff]) (simp_all add: ini)
  have v2: "values' ?self2 = (values' self)(nm \<mapsto> sv)" and f2: "fields' ?self2 = fields' self"
    by simp_all
  have p1: "distinct (map fst fs)" using Cons.prems(1) by simp
  have notin: "nm \<notin> fst ` set fs" using Cons.prems(1) a by simp
  have p2: "\<forall>x\<in>set fs. values' ?self2 (fst x) = None"
  proof
    fix x assume x: "x \<in> set fs"
    with notin have "fst x \<noteq> nm" by auto
    with Cons.prems(2) x show "values' ?self2 (fst x) = None" unfolding v2 by simp
  qed
  have p3: "\<forall>x\<in>set fs. map_of (fields' ?self2) (fst x) = Some (snd x)"
    using Cons.prems(3) unfolding f2 by simp
  have p4: "\<forall>x\<in>set fs. \<exists>d sv. declared_initial (own ?self2) (snd x) = Some d \<and>
                           store (kind (snd x)) d = Inr sv"
    using Cons.prems(4) unfolding di by simp
  from Cons.IH [OF p1 p2 p3 p4] obtain ffs' s
    where m: "materialize ?self2 fs = (Inr ffs', s)"
      and rest: "\<forall>x\<in>set fs. \<exists>d sv. declared_initial (own ?self2) (snd x) = Some d \<and>
                           store (kind (snd x)) d = Inr sv \<and> values' s (fst x) = Some sv"
    by blast
  have whole: "materialize self ((nm, f) # fs) = (Inr ((nm, r) # ffs'), s)"
    by (rule materialize_ConsI [OF opts g fld ff1 m])
  from materialize_frame [OF m] have "values' ?self2 \<subseteq>\<^sub>m values' s" by blast
  then have head: "values' s nm = Some sv"
    unfolding v2 by (auto simp: map_le_def dom_def)
  have "\<forall>x\<in>set (a # fs). \<exists>d sv. declared_initial (own self) (snd x) = Some d \<and>
                           store (kind (snd x)) d = Inr sv \<and> values' s (fst x) = Some sv"
    using rest head d sv a unfolding di by auto
  with whole a show ?case by blast
qed

lemma BaseDynamicFilter_init_unbound:
  assumes "resolve_state (fc_name flt) req = (fi, ir, vs, req1)"
    and "deepcopy_fields h (base_fields flt) = Inr (base_fields flt, h)"
    and "materialize \<lparr>filter_type = flt, first_init = fi, is_reset = ir, values' = vs,
           fields' = base_fields flt, own = h, form = UnboundForm []\<rparr> (base_fields flt) =
         (Inr ffs, self1)"
    and "\<not> (http_method req1 = ''POST'' \<and> \<not> ir)"
  shows "BaseDynamicFilter_init clean flt h req =
           Inr (self1\<lparr>form := UnboundForm ffs\<rparr>,
                req1\<lparr>session := (session req1)(fc_name flt \<mapsto> values' self1), modified := True\<rparr>)"
proof (cases "http_method req1 = ''POST''")
  case True
  with assms(4) have ir by simp
  with assms(1,2,3) show ?thesis by (simp add: BaseDynamicFilter_init_def)
next
  case False
  with assms(1,2,3) show ?thesis by (simp add: BaseDynamicFilter_init_def)
qed

lemma BaseDynamicFilter_init_flags:
  assumes "BaseDynamicFilter_init clean flt h req = Inr (self, req')"
  shows "first_init self = (session req (fc_name flt) = None)"
    and "is_reset self = (GET req ''reset_filter'' = Some (fc_name flt))"
proof -
  from assms obtain fi ir vs req1 ffs0 self1 where
    rs: "resolve_state (fc_name flt) req = (fi, ir, vs, req1)"
    and m: "materialize \<lparr>filter_type = flt, first_init = fi, is_reset = ir, values' = vs,
           fields' = base_fields flt, own = h, form = UnboundForm []\<rparr> (base_fields flt) =
         (Inr ffs0, self1)"
    and sub: "(if http_method req1 = ''POST'' \<and> \<not> ir
          then (let cleaned = clean (form_fields_of (own self1) ffs0) (POST req1);
                    self2 = self1\<lparr>form := BoundForm ffs0 (POST req1) cleaned\<rparr>
                in case cleaned of None \<Rightarrow> (Inr (), self2) | Some items \<Rightarrow> set_values self2 items)
          else (Inr (), self1\<lparr>form := UnboundForm ffs0\<rparr>)) = (Inr (), self)"
    by (rule BaseDynamicFilter_init_InrE)
  from materialize_frame [OF m] have f1: "first_init self1 = fi" "is_reset self1 = ir"
    by (simp_all add: same_frame_def)
  have "same_frame self1 self"
  proof (cases "http_method req1 = ''POST'' \<and> \<not> ir")
    case False
    with sub have "self = self1\<lparr>form := UnboundForm ffs0\<rparr>" by (simp split: if_splits)
    then show ?thesis by (simp add: same_frame_def)
  next
    case True
    let ?cleaned = "clean (form_fields_of (own self1) ffs0) (POST req1)"
    let ?self2 = "self1\<lparr>form := BoundForm ffs0 (POST req1) ?cleaned\<rparr>"
    have s2: "same_frame self1 ?self2" by (simp add: same_frame_def)
    show ?thesis
    proof (cases ?cleaned)
      case None
      with sub True have "self = ?self2" by (simp add: Let_def)
      with s2 show ?thesis by simp
    next
      case (Some items)
      with sub True have "set_values ?self2 items = (Inr (), self)" by (simp add: Let_def)
      from set_values_frame [OF this] have "same_frame ?self2 self" by blast
      with s2 show ?thesis by (rule same_frame_trans)
    qed
  qed
  with f1 have "first_init self = fi" "is_reset self = ir" by (simp_all add: same_frame_def)
  with resolve_state_facts(1,2) [OF rs]
  show "first_init self = (session req (fc_name flt) = None)"
    and "is_reset self = (GET req ''reset_filter'' = Some (fc_name flt))" by simp_all
qed

text \<open>
  C2, amended.  On a session with no entry under the filter's name and a request that
  submits nothing, for a filter type whose fields each declare an initial value that
  \<open>store\<close> accepts, the constructor returns with \<open>first_init\<close> set and leaves a session
  entry that holds, for every declared field and nothing else, the stored form of its
  declared initial value; and on any request made on that session afterwards
  \<open>first_init\<close> is computed as false, so every instance then constructed reports it
  false.
\<close>

theorem first_init_stores_defaults:
  assumes "session req (fc_name flt) = None" and "http_method req \<noteq> ''POST''"
    and "distinct (map fst (base_fields flt))"
    and "\<forall>x\<in>set (base_fields flt). \<exists>d sv. declared_initial h (snd x) = Some d \<and>
           store (kind (snd x)) d = Inr sv"
  shows "\<exists>self req'. BaseDynamicFilter_init clean flt h req = Inr (self, req') \<and>
           first_init self \<and>
           session req' (fc_name flt) = Some (values' self) \<and>
           dom (values' self) = fst ` set (base_fields flt) \<and>
           (\<forall>x\<in>set (base_fields flt). \<exists>d sv. declared_initial h (snd x) = Some d \<and>
              store (kind (snd x)) d = Inr sv \<and> values' self (fst x) = Some sv) \<and>
           (\<forall>clean2 req2. session req2 = session req' \<longrightarrow>
              \<not> fst (resolve_state (fc_name flt) req2) \<and>
              (\<forall>self2 req2'. BaseDynamicFilter_init clean2 flt h req2 = Inr (self2, req2') \<longrightarrow>
                 \<not> first_init self2))"
proof -
  let ?nm = "fc_name flt" and ?bf = "base_fields flt"
  let ?ir = "GET req ''reset_filter'' = Some ?nm"
  let ?self0 = "\<lparr>filter_type = flt, first_init = True, is_reset = ?ir, values' = Map.empty,
           fields' = ?bf, own = h, form = UnboundForm []\<rparr>"
  have rs: "resolve_state ?nm req = (True, ?ir, Map.empty, req)"
    using assms(1) by (simp add: resolve_state_def)
  have q2: "\<forall>x\<in>set ?bf. values' ?self0 (fst x) = None" by simp
  have q3: "\<forall>x\<in>set ?bf. map_of (fields' ?self0) (fst x) = Some (snd x)"
    using assms(3) by simp
  have q4: "\<forall>x\<in>set ?bf. \<exists>d sv. declared_initial (own ?self0) (snd x) = Some d \<and>
              store (kind (snd x)) d = Inr sv"
    using assms(4) by simp
  from materialize_fresh [OF assms(3) q2 q3 q4] obtain ffs self1
    where m: "materialize ?self0 ?bf = (Inr ffs, self1)"
      and st: "\<forall>x\<in>set ?bf. \<exists>d sv. declared_initial (own ?self0) (snd x) = Some d \<and>
              store (kind (snd x)) d = Inr sv \<and> values' self1 (fst x) = Some sv"
    by blast
  from materialize_frame [OF m] have fi: "first_init self1"
    and dm: "dom (values' self1) = fst ` set ?bf"
    by (simp_all add: same_frame_def)
  have "metas h (meta_ref (snd x)) \<noteq> None" if "x \<in> set ?bf" for x
  proof -
    from assms(4) that obtain d where "declared_initial h (snd x) = Some d" by blast
    then show ?thesis by (rule declared_initial_SomeE) simp
  qed
  then have dc: "deepcopy_fields h ?bf = Inr (?bf, h)"
    by (auto simp: deepcopy_fields_def list_all_iff)
  let ?self = "self1\<lparr>form := UnboundForm ffs\<rparr>"
  let ?req' = "req\<lparr>session := (session req)(?nm \<mapsto> values' self1), modified := True\<rparr>"
  have np: "\<not> (http_method req = ''POST'' \<and> \<not> ?ir)" using assms(2) by simp
  have init: "BaseDynamicFilter_init clean flt h req = Inr (?self, ?req')"
    by (rule BaseDynamicFilter_init_unbound [OF rs dc m np])
  have a: "first_init ?self" using fi by simp
  have b: "session ?req' ?nm = Some (values' ?self)" by simp
  have c: "dom (values' ?self) = fst ` set ?bf" using dm by simp
  have e: "\<forall>x\<in>set ?bf. \<exists>d sv. declared_initial h (snd x) = Some d \<and>
              store (kind (snd x)) d = Inr sv \<and> values' ?self (fst x) = Some sv"
    using st by simp
  have s: "\<not> fst (resolve_state ?nm req2) \<and>
           (\<forall>self2 req2'. BaseDynamicFilter_init clean2 flt h req2 = Inr (self2, req2') \<longrightarrow>
                 \<not> first_init self2)"
    if same: "session req2 = session ?req'" for clean2 req2
  proof -
    from same have ent: "session req2 ?nm \<noteq> None" by simp
    obtain fi2 ir2 vs2 r2 where r: "resolve_state ?nm req2 = (fi2, ir2, vs2, r2)"
      by (cases "resolve_state ?nm req2")
    from resolve_state_facts(1) [OF r] ent r have "\<not> fst (resolve_state ?nm req2)" by simp
    moreover have "\<not> first_init self2"
      if "BaseDynamicFilter_init clean2 flt h req2 = Inr (self2, req2')" for self2 req2'
      using BaseDynamicFilter_init_flags(1) [OF that] ent by simp
    ultimately show ?thesis by blast
  qed
  from init a b c e s show ?thesis by blast
qed

text \<open>
  C2 as stated fails where \<open>store\<close> does not accept a declared initial value: the form
  field of the model field \<open>owner\<close> declares the primary key \<open>1\<close> as its initial value,
  \<open>ModelField.store\<close> reads \<open>pk\<close> of it, and the first construction on a fresh session
  raises \<open>AttributeError\<close> and leaves no session entry.
\<close>

theorem first_init_pk_initial_raises:
  "session fresh_request (fc_name owner_filter) = None \<and>
   http_method fresh_request \<noteq> ''POST'' \<and>
   declared_initial pk_initial_heap \<lparr>kind = ModelFieldKind, meta_ref = 1\<rparr> = Some (PInt 1) \<and>
   BaseDynamicFilter_init reject_all owner_filter pk_initial_heap fresh_request =
     Inl (AttributeError ''pk'')"
  by (simp add: instance_eval declared_initial_def)

text \<open>C2, amended, on a filter with a plain field \<open>status\<close> (initial value \<open>open\<close>) and a model field
  \<open>owner\<close> (no initial value): the first construction stores both, the second one reports
  \<open>first_init\<close> false.\<close>

theorem first_init_stores_defaults_witness:
  "BaseDynamicFilter_init reject_all owner_filter owner_heap fresh_request =
     Inr (owner_instance True, owner_request) \<and>
   BaseDynamicFilter_init reject_all owner_filter owner_heap (owner_request\<lparr>modified := False\<rparr>) =
     Inr (owner_instance False, owner_request) \<and>
   \<not> first_init (owner_instance False)"
proof -
  have e1: "BaseDynamicFilter_init reject_all owner_filter owner_heap fresh_request =
     Inr (owner_instance True, owner_request)"
    by (simp add: instance_eval)
  have e2: "BaseDynamicFilter_init reject_all owner_filter owner_heap
      (owner_request\<lparr>modified := False\<rparr>) = Inr (owner_instance False, owner_request)"
    by (simp add: instance_eval)
  have p1: "session fresh_request (fc_name owner_filter) = None" by simp
  have p2: "http_method fresh_request \<noteq> ''POST''" by simp
  have p3: "distinct (map fst (base_fields owner_filter))" by simp
  have p4: "\<forall>x\<in>set (base_fields owner_filter). \<exists>d sv.
      declared_initial owner_heap (snd x) = Some d \<and> store (kind (snd x)) d = Inr sv"
    by (simp add: declared_initial_def)
  from first_init_stores_defaults [OF p1 p2 p3 p4, of reject_all]
  obtain self req' where i: "BaseDynamicFilter_init reject_all owner_filter owner_heap
      fresh_request = Inr (self, req')"
    and s: "\<forall>clean2 req2. session req2 = session req' \<longrightarrow>
              \<not> fst (resolve_state (fc_name owner_filter) req2) \<and>
              (\<forall>self2 req2'. BaseDynamicFilter_init clean2 owner_filter owner_heap req2 =
                   Inr (self2, req2') \<longrightarrow> \<not> first_init self2)"
    by (elim exE conjE)
  from i have "Inr (self, req') = (Inr (owner_instance True, owner_request) :: error + _)"
    unfolding e1 by (rule sym)
  then have r: "req' = owner_request" by (simp only: sum.inject prod.inject)
  have ss: "session (owner_request\<lparr>modified := False\<rparr>) = session req'"
    unfolding r by simp
  from s [rule_format, OF ss, THEN conjunct2, rule_format, OF e2]
  have n: "\<not> first_init (owner_instance False)" .
  show ?thesis by (intro conjI) (rule e1, rule e2, rule n)
qed

lemma resolve_state_http_method:
  assumes "resolve_state nm req = (fi, ir, vs, req1)"
  shows "resolve_state nm (req\<lparr>http_method := m\<rparr>) = (fi, ir, vs, req1\<lparr>http_method := m\<rparr>)"
  using assms by (auto simp: resolve_state_def session_get_def Let_def split: if_splits)

lemma form_ref_metas: "metas h2 = metas h \<Longrightarrow> form_ref h2 f = form_ref h f"
  by (simp add: form_ref_def)

lemma form_ref_SomeI:
  "metas h (meta_ref f) = Some opts \<Longrightarrow> field opts = FormFieldObj r \<Longrightarrow> form_ref h f = Some r"
  by (simp add: form_ref_def)

lemma declared_initial_form_ref:
  "declared_initial h f = (case form_ref h f of None \<Rightarrow> None | Some r \<Rightarrow> map_option initial (forms h r))"
proof (cases "metas h (meta_ref f)")
  case None
  then show ?thesis by (simp add: declared_initial_def form_ref_def)
next
  case (Some opts)
  then show ?thesis by (cases "field opts") (simp_all add: declared_initial_def form_ref_def)
qed

lemma declared_initial_other_form:
  assumes "metas h2 = metas h" and "forms h2 = (forms h)(r \<mapsto> ff2)"
    and "form_ref h f \<noteq> Some r"
  shows "declared_initial h2 f = declared_initial h f"
proof -
  have fr: "form_ref h2 f = form_ref h f" using assms(1) by (rule form_ref_metas)
  show ?thesis
  proof (cases "form_ref h f")
    case None
    with fr show ?thesis by (simp add: declared_initial_form_ref)
  next
    case (Some r')
    with assms(3) have "r' \<noteq> r" by simp
    with Some fr assms(2) show ?thesis by (simp add: declared_initial_form_ref)
  qed
qed

lemma map_le_SomeD: "m \<subseteq>\<^sub>m m' \<Longrightarrow> m k = Some v \<Longrightarrow> m' k = Some v"
  by (metis domI map_le_def)

lemma materialize_fills:
  assumes "materialize self fs = (Inr ffs, s)"
    and "distinct (map fst fs)"
    and "(nm, f) \<in> set fs"
    and "\<forall>y\<in>set fs. map_of (fields' self) (fst y) = Some (snd y)"
    and "values' self nm = None"
    and "\<forall>y\<in>set fs. fst y \<noteq> nm \<longrightarrow> form_ref (own self) (snd y) \<noteq> form_ref (own self) f"
  shows "\<exists>dv sv. declared_initial (own self) f = Some dv \<and> store (kind f) dv = Inr sv \<and>
           values' s nm = Some sv"
  using assms
proof (induction fs arbitrary: self ffs)
  case Nil
  then show ?case by simp
next
  case (Cons a fs)
  obtain nm0 f0 where a: "a = (nm0, f0)" by (cases a)
  from Cons.prems(1) a have "materialize self ((nm0, f0) # fs) = (Inr ffs, s)" by simp
  then obtain opts v self1 r ff ffs'
    where opts: "metas (own self) (meta_ref f0) = Some opts"
      and g: "get_value self nm0 (initial_of (own self) opts) True = (Inr v, self1)"
      and fld: "field opts = FormFieldObj r" and ff: "forms (own self1) r = Some ff"
      and m: "materialize (self1\<lparr>own := (own self1)\<lparr>forms := (forms (own self1))
            (r \<mapsto> ff\<lparr>initial := v, required := False\<rparr>)\<rparr>\<rparr>) fs = (Inr ffs', s)"
    by (rule materialize_ConsE)
  let ?self2 = "self1\<lparr>own := (own self1)\<lparr>forms := (forms (own self1))
            (r \<mapsto> ff\<lparr>initial := v, required := False\<rparr>)\<rparr>\<rparr>"
  from get_value_init_frame [OF g]
  have fr1: "same_frame self self1" and o1: "own self1 = own self"
    and d1: "dom (values' self1) = insert nm0 (dom (values' self))"
    by blast+
  have v2: "values' ?self2 = values' self1" and f2: "fields' ?self2 = fields' self"
    and m2: "metas (own ?self2) = metas (own self)"
    and fo2: "forms (own ?self2) = (forms (own self))(r \<mapsto> ff\<lparr>initial := v, required := False\<rparr>)"
    using fr1 o1 by (simp_all add: same_frame_def)
  from materialize_frame [OF m] have le: "values' ?self2 \<subseteq>\<^sub>m values' s" by blast
  have r0: "form_ref (own self) f0 = Some r" using opts fld by (rule form_ref_SomeI)
  show ?case
  proof (cases "nm0 = nm")
    case True
    have "f0 = f"
    proof (rule ccontr)
      assume "f0 \<noteq> f"
      with Cons.prems(3) a True have "(nm, f) \<in> set fs" by auto
      then have "nm \<in> fst ` set fs" by force
      with Cons.prems(2) a True show False by simp
    qed
    have "values' self nm0 = None" using Cons.prems(5) True by simp
    with get_value_init [OF g]
    have "\<exists>f'' sv. map_of (fields' self) nm0 = Some f'' \<and>
            store (kind f'') (initial_of (own self) opts) = Inr sv \<and>
            v = initial_of (own self) opts \<and>
            self1 = self\<lparr>values' := (values' self)(nm0 \<mapsto> sv)\<rparr>"
      by blast
    then obtain f'' sv where "map_of (fields' self) nm = Some f''"
      and sv: "store (kind f'') (initial_of (own self) opts) = Inr sv"
      and s1: "self1 = self\<lparr>values' := (values' self)(nm \<mapsto> sv)\<rparr>"
      unfolding True by blast
    with Cons.prems(4) a True \<open>f0 = f\<close> have "f'' = f" by simp
    from ff o1 have ff0: "forms (own self) r = Some ff" by simp
    with opts fld \<open>f0 = f\<close> have di: "declared_initial (own self) f = Some (initial ff)"
      and io: "initial_of (own self) opts = initial ff"
      by (simp_all add: declared_initial_def initial_of_def)
    from s1 have "values' ?self2 nm = Some sv" by simp
    with le have "values' s nm = Some sv" by (rule map_le_SomeD)
    with di sv io \<open>f'' = f\<close> show ?thesis by simp
  next
    case False
    with Cons.prems(3) a have mem: "(nm, f) \<in> set fs" by auto
    from Cons.prems(6) a False r0 have ne: "form_ref (own self) f \<noteq> Some r" by auto
    have p2: "distinct (map fst fs)" using Cons.prems(2) by simp
    have p4: "\<forall>y\<in>set fs. map_of (fields' ?self2) (fst y) = Some (snd y)"
      using Cons.prems(4) unfolding f2 by simp
    have "nm \<notin> insert nm0 (dom (values' self))"
      using Cons.prems(5) False by (simp add: domIff)
    then have "nm \<notin> dom (values' self1)" unfolding d1 .
    then have p5: "values' ?self2 nm = None" unfolding v2 by (simp add: domIff)
    have fr2: "form_ref (own ?self2) x = form_ref (own self) x" for x
      using m2 by (rule form_ref_metas)
    have p6: "\<forall>y\<in>set fs. fst y \<noteq> nm \<longrightarrow>
                form_ref (own ?self2) (snd y) \<noteq> form_ref (own ?self2) f"
      using Cons.prems(6) unfolding fr2 by simp
    have di2: "declared_initial (own ?self2) f = declared_initial (own self) f"
      using m2 fo2 ne by (rule declared_initial_other_form)
    from Cons.IH [OF m p2 mem p4 p5 p6] show ?thesis unfolding di2 .
  qed
qed

text \<open>
  C3, amended.  When the constructor returns with a bound form whose validation failed
  (the request is a \<open>POST\<close> and not a reset), the \<open>values\<close> written back to the session are
  those a request on the same session without submission would have written: the
  submission adds and changes nothing.  They agree with the values the session held
  before the request on every key those had, and have a key for every declared field
  besides; they are identical to the values held before whenever those had a key for
  every declared field; and under a key those lacked, for a field whose form field no
  other declared field shares, they hold the stored form of the field's declared initial
  value.
\<close>

theorem invalid_submission_keeps_values:
  assumes "BaseDynamicFilter_init clean flt h req = Inr (self, req')"
    and "form self = BoundForm ffs d None"
  shows "http_method req = ''POST'' \<and> \<not> is_reset self \<and>
         session req' (fc_name flt) = Some (values' self) \<and>
         (\<exists>self_g req_g.
            BaseDynamicFilter_init clean2 flt h (req\<lparr>http_method := ''GET''\<rparr>) =
              Inr (self_g, req_g) \<and>
            values' self = values' self_g \<and> session req' = session req_g) \<and>
         session_get req (fc_name flt) \<subseteq>\<^sub>m values' self \<and>
         dom (values' self) = dom (session_get req (fc_name flt)) \<union> fst ` set (base_fields flt) \<and>
         (fst ` set (base_fields flt) \<subseteq> dom (session_get req (fc_name flt)) \<longrightarrow>
            values' self = session_get req (fc_name flt)) \<and>
         (distinct (map fst (base_fields flt)) \<longrightarrow>
            (\<forall>x\<in>set (base_fields flt).
               session_get req (fc_name flt) (fst x) = None \<and>
               (\<forall>y\<in>set (base_fields flt). fst y \<noteq> fst x \<longrightarrow>
                  form_ref h (snd y) \<noteq> form_ref h (snd x)) \<longrightarrow>
               (\<exists>dv sv. declared_initial h (snd x) = Some dv \<and>
                  store (kind (snd x)) dv = Inr sv \<and> values' self (fst x) = Some sv)))"
proof -
  let ?nm = "fc_name flt"
  from assms(1) obtain fi ir vs req1 ffs0 self1 where
    rs: "resolve_state ?nm req = (fi, ir, vs, req1)"
    and dc: "deepcopy_fields h (base_fields flt) = Inr (base_fields flt, h)"
    and m: "materialize \<lparr>filter_type = flt, first_init = fi, is_reset = ir, values' = vs,
           fields' = base_fields flt, own = h, form = UnboundForm []\<rparr> (base_fields flt) =
         (Inr ffs0, self1)"
    and sub: "(if http_method req1 = ''POST'' \<and> \<not> ir
          then (let cleaned = clean (form_fields_of (own self1) ffs0) (POST req1);
                    self2 = self1\<lparr>form := BoundForm ffs0 (POST req1) cleaned\<rparr>
                in case cleaned of None \<Rightarrow> (Inr (), self2) | Some items \<Rightarrow> set_values self2 items)
          else (Inr (), self1\<lparr>form := UnboundForm ffs0\<rparr>)) = (Inr (), self)"
    and req': "req' = req1\<lparr>session := (session req1)(?nm \<mapsto> values' self), modified := True\<rparr>"
    by (rule BaseDynamicFilter_init_InrE)
  let ?self0 = "\<lparr>filter_type = flt, first_init = fi, is_reset = ir, values' = vs,
           fields' = base_fields flt, own = h, form = UnboundForm []\<rparr>"
  from materialize_frame [OF m]
  have fr: "same_frame ?self0 self1" and le: "values' ?self0 \<subseteq>\<^sub>m values' self1"
    and dm: "dom (values' self1) = dom (values' ?self0) \<union> fst ` set (base_fields flt)"
    by blast+
  have post: "http_method req1 = ''POST'' \<and> \<not> ir"
  proof (rule ccontr)
    assume "\<not> (http_method req1 = ''POST'' \<and> \<not> ir)"
    with sub have "self = self1\<lparr>form := UnboundForm ffs0\<rparr>" by (simp split: if_splits)
    with assms(2) show False by simp
  qed
  let ?cleaned = "clean (form_fields_of (own self1) ffs0) (POST req1)"
  let ?self2 = "self1\<lparr>form := BoundForm ffs0 (POST req1) ?cleaned\<rparr>"
  have none: "?cleaned = None"
  proof (cases ?cleaned)
    case None
    then show ?thesis .
  next
    case (Some items)
    with sub post have "set_values ?self2 items = (Inr (), self)" by (simp add: Let_def)
    from set_values_frame [OF this] have "form self = form ?self2" by simp
    with assms(2) Some show ?thesis by simp
  qed
  with sub post have self: "self = ?self2" by (simp add: Let_def)
  then have vals: "values' self = values' self1" by simp
  from self fr have ir: "is_reset self = ir" by (simp add: same_frame_def)
  from resolve_state_facts(3,5) [OF rs] post
  have meth: "http_method req = ''POST''" and vs: "vs = session_get req ?nm" by simp_all
  have a: "session req' ?nm = Some (values' self)" using req' by simp
  have b: "session_get req ?nm \<subseteq>\<^sub>m values' self" using le vs vals by simp
  have c: "dom (values' self) = dom (session_get req ?nm) \<union> fst ` set (base_fields flt)"
    using dm vs vals by simp
  have e: "values' self = session_get req ?nm"
    if "fst ` set (base_fields flt) \<subseteq> dom (session_get req ?nm)"
    using b by (rule map_le_same_dom) (use c that in auto)
  let ?req1g = "req1\<lparr>http_method := ''GET''\<rparr>"
  have rsg: "resolve_state ?nm (req\<lparr>http_method := ''GET''\<rparr>) = (fi, ir, vs, ?req1g)"
    using rs by (rule resolve_state_http_method)
  have npg: "\<not> (http_method ?req1g = ''POST'' \<and> \<not> ir)" by simp
  let ?self_g = "self1\<lparr>form := UnboundForm ffs0\<rparr>"
  let ?req_g = "?req1g\<lparr>session := (session ?req1g)(?nm \<mapsto> values' self1), modified := True\<rparr>"
  have ig: "BaseDynamicFilter_init clean2 flt h (req\<lparr>http_method := ''GET''\<rparr>) =
              Inr (?self_g, ?req_g)"
    by (rule BaseDynamicFilter_init_unbound [OF rsg dc m npg])
  have vg: "values' self = values' ?self_g" using vals by simp
  have sg: "session req' = session ?req_g" unfolding req' vals by simp
  from ig vg sg have g: "\<exists>self_g req_g.
            BaseDynamicFilter_init clean2 flt h (req\<lparr>http_method := ''GET''\<rparr>) =
              Inr (self_g, req_g) \<and>
            values' self = values' self_g \<and> session req' = session req_g"
    by (intro exI conjI)
  have k: "\<exists>dv sv. declared_initial h (snd x) = Some dv \<and>
                  store (kind (snd x)) dv = Inr sv \<and> values' self (fst x) = Some sv"
    if dist: "distinct (map fst (base_fields flt))" and x: "x \<in> set (base_fields flt)"
      and nk: "session_get req ?nm (fst x) = None"
      and un: "\<forall>y\<in>set (base_fields flt). fst y \<noteq> fst x \<longrightarrow>
                  form_ref h (snd y) \<noteq> form_ref h (snd x)" for x
  proof -
    have x': "(fst x, snd x) \<in> set (base_fields flt)" using x by simp
    have q4: "\<forall>y\<in>set (base_fields flt). map_of (fields' ?self0) (fst y) = Some (snd y)"
      using dist by simp
    have q5: "values' ?self0 (fst x) = None" using nk vs by simp
    have q6: "\<forall>y\<in>set (base_fields flt). fst y \<noteq> fst x \<longrightarrow>
                form_ref (own ?self0) (snd y) \<noteq> form_ref (own ?self0) (snd x)"
      using un by simp
    from materialize_fills [OF m dist x' q4 q5 q6]
    have "\<exists>dv sv. declared_initial (own ?self0) (snd x) = Some dv \<and>
            store (kind (snd x)) dv = Inr sv \<and> values' self1 (fst x) = Some sv" .
    then show ?thesis unfolding vals by simp
  qed
  from meth ir post a b c e g k show ?thesis by blast
qed

text \<open>
  C3 as stated (after an invalid submission the session holds what it held before the
  request) fails on a first request: the session holds nothing under the filter's
  name before, and the stored initial value of every field after.
\<close>

theorem first_invalid_submission_writes_defaults:
  "session (post_request Map.empty) ''F'' = None \<and>
   BaseDynamicFilter_init reject_all status_filter status_heap (post_request Map.empty) =
     Inr (bound_status_instance True (PStr []) [(''status'', ''bad'')],
          \<lparr>session = [''F'' \<mapsto> [''status'' \<mapsto> PStr []]], modified = True, GET = Map.empty,
           http_method = ''POST'', POST = [(''status'', ''bad'')]\<rparr>)"
  by (simp add: instance_eval reject_all_def)

text \<open>C3, amended, on a follow-up request (the session holds \<open>status = open\<close> before and
  after the rejected submission) and on a first request (the session then holds the
  stored initial value of \<open>status\<close>).\<close>

theorem invalid_submission_keeps_values_witness:
  "BaseDynamicFilter_init reject_all status_filter status_heap
     (post_request [''F'' \<mapsto> [''status'' \<mapsto> PStr ''open'']]) =
     Inr (bound_status_instance False (PStr ''open'') [(''status'', ''bad'')],
          \<lparr>session = [''F'' \<mapsto> [''status'' \<mapsto> PStr ''open'']], modified = True, GET = Map.empty,
           http_method = ''POST'', POST = [(''status'', ''bad'')]\<rparr>) \<and>
   fst ` set (base_fields status_filter) \<subseteq>
     dom (session_get (post_request [''F'' \<mapsto> [''status'' \<mapsto> PStr ''open'']]) (fc_name status_filter)) \<and>
   values' (bound_status_instance False (PStr ''open'') [(''status'', ''bad'')]) =
     session_get (post_request [''F'' \<mapsto> [''status'' \<mapsto> PStr ''open'']]) (fc_name status_filter) \<and>
   BaseDynamicFilter_init reject_all status_filter status_heap (post_request Map.empty) =
     Inr (bound_status_instance True (PStr []) [(''status'', ''bad'')],
          \<lparr>session = [''F'' \<mapsto> [''status'' \<mapsto> PStr []]], modified = True, GET = Map.empty,
           http_method = ''POST'', POST = [(''status'', ''bad'')]\<rparr>) \<and>
   (\<exists>dv sv. declared_initial status_heap (plain_field 0) = Some dv \<and>
      store PlainField dv = Inr sv \<and>
      values' (bound_status_instance True (PStr []) [(''status'', ''bad'')]) ''status'' = Some sv)"
proof -
  have e: "BaseDynamicFilter_init reject_all status_filter status_heap
     (post_request [''F'' \<mapsto> [''status'' \<mapsto> PStr ''open'']]) =
     Inr (bound_status_instance False (PStr ''open'') [(''status'', ''bad'')],
          \<lparr>session = [''F'' \<mapsto> [''status'' \<mapsto> PStr ''open'']], modified = True, GET = Map.empty,
           http_method = ''POST'', POST = [(''status'', ''bad'')]\<rparr>)"
    by (simp add: instance_eval reject_all_def)
  have f: "form (bound_status_instance fi v [(''status'', ''bad'')]) =
             BoundForm [(''status'', 0)] [(''status'', ''bad'')] None" for fi v by simp
  have d: "fst ` set (base_fields status_filter) \<subseteq>
     dom (session_get (post_request [''F'' \<mapsto> [''status'' \<mapsto> PStr ''open'']]) (fc_name status_filter))"
    by (simp add: session_get_def)
  note t = invalid_submission_keeps_values [OF e f, of reject_all]
  note g = t [THEN conjunct2, THEN conjunct2, THEN conjunct2, THEN conjunct2, THEN conjunct2,
      THEN conjunct2, THEN conjunct1, THEN mp, OF d]
  have e0: "BaseDynamicFilter_init reject_all status_filter status_heap (post_request Map.empty) =
     Inr (bound_status_instance True (PStr []) [(''status'', ''bad'')],
          \<lparr>session = [''F'' \<mapsto> [''status'' \<mapsto> PStr []]], modified = True, GET = Map.empty,
           http_method = ''POST'', POST = [(''status'', ''bad'')]\<rparr>)"
    by (simp add: instance_eval reject_all_def)
  have dist: "distinct (map fst (base_fields status_filter))" by simp
  have mem: "(''status'', plain_field 0) \<in> set (base_fields status_filter)" by simp
  have lack: "session_get (post_request Map.empty) (fc_name status_filter)
                (fst (''status'', plain_field 0)) = None \<and>
      (\<forall>y\<in>set (base_fields status_filter). fst y \<noteq> fst (''status'', plain_field 0) \<longrightarrow>
         form_ref status_heap (snd y) \<noteq> form_ref status_heap (snd (''status'', plain_field 0)))"
    by (simp add: session_get_def)
  note t0 = invalid_submission_keeps_values [OF e0 f, of reject_all]
  note k = t0 [THEN conjunct2, THEN conjunct2, THEN conjunct2, THEN conjunct2, THEN conjunct2,
      THEN conjunct2, THEN conjunct2, THEN mp, OF dist, THEN bspec, OF mem, THEN mp, OF lack]
  have k': "\<exists>dv sv. declared_initial status_heap (plain_field 0) = Some dv \<and>
      store PlainField dv = Inr sv \<and>
      values' (bound_status_instance True (PStr []) [(''status'', ''bad'')]) ''status'' = Some sv"
    using k by simp
  show ?thesis by (intro conjI) (rule e, rule d, rule g, rule e0, rule k')
qed



end
